theory Spec2Isabelle
  imports Main "HOL-Library.Multiset"
begin

section \<open>Strings\<close>

text \<open>
  A JavaScript string is a sequence of UTF-16 code units. The texts of lines, package ids
  and version strings are modelled as HOL strings, which hold the code units below 256
  (ASCII and the Latin-1 supplement); code units from 256 on are outside the model there.
  A search query, whose cache key depends on letter case beyond Latin-1, is modelled as the
  list of its code units themselves, numbers below 65536; \<open>js\<close> reads a HOL string as
  such a list.
\<close>

definition code :: "char \<Rightarrow> nat" where
  "code c = of_char c"

type_synonym jsstring = "nat list"

definition js :: "string \<Rightarrow> jsstring" where
  "js s = map code s"

text \<open>
  \<open>String.prototype.toLowerCase\<close> follows the Unicode default case conversion. The
  model has it on the code units below 256, on U+0130 and on the Greek sigmas:
  \<^item> the letters \<open>A\<close>-\<open>Z\<close> and the Latin-1 capitals U+00C0-U+00DE (U+00D7, the
    multiplication sign, apart) move up by 32;
  \<^item> U+0130 (capital I with dot above) becomes the two code units U+0069 U+0307;
  \<^item> U+03A3 (capital sigma, 931) becomes the final sigma U+03C2 (962) when it ends a
    word (rule Final_Sigma: a cased letter comes before it, case-ignorable characters
    skipped, and none comes after it, case-ignorable characters skipped), and the small
    sigma U+03C3 (963) otherwise;
  \<^item> every other code unit is kept.
  A query with a letter of another alphabet, or with a surrogate pair, is outside the
  model: the tables of the other alphabets are left out.
\<close>

definition lowerUnit :: "nat \<Rightarrow> nat list" where
  "lowerUnit u =
     (if (65 \<le> u \<and> u \<le> 90) \<or> (192 \<le> u \<and> u \<le> 222 \<and> u \<noteq> 215) then [u + 32]
      else if u = 304 then [105, 775]
      else [u])"

text \<open>The Unicode properties Cased and Case_Ignorable on the code units of the model.\<close>

definition isCased :: "nat \<Rightarrow> bool" where
  "isCased u =
     ((65 \<le> u \<and> u \<le> 90) \<or> (97 \<le> u \<and> u \<le> 122) \<or> u = 170 \<or> u = 181 \<or> u = 186
      \<or> (192 \<le> u \<and> u \<le> 214) \<or> (216 \<le> u \<and> u \<le> 246) \<or> (248 \<le> u \<and> u \<le> 255)
      \<or> u = 304 \<or> u = 931 \<or> u = 962 \<or> u = 963)"

definition isCaseIgnorable :: "nat \<Rightarrow> bool" where
  "isCaseIgnorable u = (u \<in> {39, 46, 58, 94, 96, 168, 173, 175, 180, 183, 184})"

text \<open>
  Whether the first code unit that is not case-ignorable is a cased letter; asked of the
  code units after a sigma, and of those before it from the nearest one backwards.
\<close>

definition besideCased :: "nat list \<Rightarrow> bool" where
  "besideCased us = (case dropWhile isCaseIgnorable us of [] \<Rightarrow> False | u # _ \<Rightarrow> isCased u)"

text \<open>
  The conversion from left to right; \<open>passed\<close> holds the code units already passed,
  the nearest first.
\<close>

fun lowerFrom :: "nat list \<Rightarrow> nat list \<Rightarrow> nat list" where
  "lowerFrom passed [] = []"
| "lowerFrom passed (u # rest) =
     (if u = 931 then (if besideCased passed \<and> \<not> besideCased rest then [962] else [963])
      else lowerUnit u)
     @ lowerFrom (u # passed) rest"

definition toLowerCase :: "jsstring \<Rightarrow> jsstring" where
  "toLowerCase s = lowerFrom [] s"

section \<open>The package query cache and \<open>searchPackages\<close>\<close>

text \<open>
  \<open>interface NuGetPackage\<close> as its values are at run time. A field is an \<open>option\<close>,
  \<open>None\<close> for \<open>undefined\<close>: the interface declares \<open>id\<close> and \<open>version\<close> required,
  but nothing checks the response, and a field the response lacks reads \<open>undefined\<close>.
  A count is an integer-valued number.
\<close>

record NuGetPackage =
  id :: "string option"
  version :: "string option"
  description :: "string option"
  totalDownloads :: "int option"

text \<open>
  One element of \<open>response.data.data\<close>, as the fields that the code reads from it. An
  element that is an empty object, or no object at all (a number, a string), has no field.
  A field of another type than the declared one is outside the model.
\<close>

record SearchItem =
  item_id :: "string option"
  item_version :: "string option"
  item_description :: "string option"
  item_totalDownloads :: "int option"
  item_versions :: "string list option"

text \<open>An element has the declared shape when the two required fields are there.\<close>

definition wellShaped :: "SearchItem \<Rightarrow> bool" where
  "wellShaped item = (item_id item \<noteq> None \<and> item_version item \<noteq> None)"

text \<open>
  What \<open>axios.get\<close> and the reading of \<open>response.data.data\<close> can do inside the
  \<open>try\<close> block of \<open>searchPackages\<close>:
  \<^item> the request throws: \<open>TransportError\<close>, or \<open>Timeout\<close> after 5000 ms;
  \<^item> \<open>response.data.data.map(...)\<close> throws: the body has no \<open>data\<close> array, or an
    element of it is \<open>null\<close> or \<open>undefined\<close> (\<open>Malformed\<close>);
  \<^item> nothing throws: the body has a \<open>data\<close> array and the map reads every element
    (\<open>Ok\<close>). The elements need not have the declared shape: a body such as
    \<open>{data: [{}]}\<close> or \<open>{data: [1]}\<close> is malformed too, and the map reads it without
    throwing.
\<close>

datatype search_outcome = TransportError | Timeout | Malformed | Ok "SearchItem list"

text \<open>
  The state of a completion provider: the two maps \<open>packageCache\<close> and \<open>cacheExpiry\<close>
  of the class, and the trace of the remote search requests issued so far (the \<open>q\<close>
  parameter of each \<open>axios.get\<close>), which makes the effect of a call observable.
\<close>

record provider_state =
  packageCache :: "jsstring \<rightharpoonup> NuGetPackage list"
  cacheExpiry :: "jsstring \<rightharpoonup> int"
  requests :: "jsstring list"

definition CACHE_DURATION :: int where
  "CACHE_DURATION = 5 * 60 * 1000"

text \<open>The arrow function mapped over \<open>response.data.data\<close>.\<close>

definition toPackage :: "SearchItem \<Rightarrow> NuGetPackage" where
  "toPackage item =
     \<lparr>id = item_id item, version = item_version item,
      description = item_description item, totalDownloads = item_totalDownloads item\<rparr>"

text \<open>
  The cache check at the head of \<open>searchPackages\<close>:
  \<open>packageCache.has(cacheKey) && cacheExpiry.has(cacheKey) && cacheExpiry.get(cacheKey) > now\<close>.
  It yields the cached list when the three tests pass.
\<close>

definition cacheLookup :: "provider_state \<Rightarrow> jsstring \<Rightarrow> int \<Rightarrow> NuGetPackage list option" where
  "cacheLookup s cacheKey now =
     (case packageCache s cacheKey of
        None \<Rightarrow> None
      | Some packages \<Rightarrow>
          (case cacheExpiry s cacheKey of
             None \<Rightarrow> None
           | Some expiresAt \<Rightarrow> if expiresAt > now then Some packages else None))"

text \<open>
  \<open>searchPackages(query)\<close>, the same text in \<open>PackageCompletionProvider\<close> and in
  \<open>DirectiveCompletionProvider\<close>. \<open>now\<close> is the value of \<open>Date.now()\<close> (milliseconds,
  an integer) and \<open>net q\<close> is what the remote search does when asked for \<open>q\<close> at this
  call. One call runs to its end before the next starts.
\<close>

definition searchPackages ::
  "provider_state \<Rightarrow> jsstring \<Rightarrow> int \<Rightarrow> (jsstring \<Rightarrow> search_outcome) \<Rightarrow> NuGetPackage list \<times> provider_state" where
  "searchPackages s query now net =
     (let cacheKey = toLowerCase query in
      case cacheLookup s cacheKey now of
        Some cached \<Rightarrow> (cached, s)
      | None \<Rightarrow>
          (let s1 = s\<lparr>requests := requests s @ [query]\<rparr> in
           case net query of
             Ok items \<Rightarrow>
               (let packages = map toPackage items in
                (packages,
                 s1\<lparr>packageCache := (packageCache s1)(cacheKey \<mapsto> packages),
                    cacheExpiry := (cacheExpiry s1)(cacheKey \<mapsto> now + CACHE_DURATION)\<rparr>))
           | _ \<Rightarrow> ([], s1)))"

section \<open>Queries that differ only in letter case\<close>

text \<open>
  Two code units are case variants of each other when they are equal, or one is a capital
  letter of ASCII or Latin-1 and the other is the small letter 32 places above it, or one
  is the capital sigma and the other a small sigma (medial or final). Two queries differ
  only in letter case when they have the same length and are case variants position by
  position.
\<close>

definition isUpper :: "nat \<Rightarrow> bool" where
  "isUpper u = ((65 \<le> u \<and> u \<le> 90) \<or> (192 \<le> u \<and> u \<le> 222 \<and> u \<noteq> 215))"

definition caseVariantUnit :: "nat \<Rightarrow> nat \<Rightarrow> bool" where
  "caseVariantUnit c d =
     (c = d \<or> (isUpper c \<and> d = c + 32) \<or> (isUpper d \<and> c = d + 32)
      \<or> (c = 931 \<and> (d = 963 \<or> d = 962)) \<or> (d = 931 \<and> (c = 963 \<or> c = 962)))"

definition differOnlyInCase :: "jsstring \<Rightarrow> jsstring \<Rightarrow> bool" where
  "differOnlyInCase a b = list_all2 caseVariantUnit a b"

section \<open>Example data\<close>

text \<open>
  A provider that has not searched yet, the search result of the scenario of the
  specification, and the element \<open>{}\<close> of a wrong-shaped body.
\<close>

definition emptyState :: provider_state where
  "emptyState = \<lparr>packageCache = Map.empty, cacheExpiry = Map.empty, requests = []\<rparr>"

definition humanizer :: SearchItem where
  "humanizer = \<lparr>item_id = Some ''Humanizer'', item_version = Some ''2.14.1'', item_description = None,
                 item_totalDownloads = Some 500000000, item_versions = None\<rparr>"

definition humanizerPackage :: NuGetPackage where
  "humanizerPackage = \<lparr>id = Some ''Humanizer'', version = Some ''2.14.1'', description = None,
                 totalDownloads = Some 500000000\<rparr>"

definition emptyObject :: SearchItem where
  "emptyObject = \<lparr>item_id = None, item_version = None, item_description = None,
                   item_totalDownloads = None, item_versions = None\<rparr>"

definition emptyRecord :: NuGetPackage where
  "emptyRecord = \<lparr>id = None, version = None, description = None, totalDownloads = None\<rparr>"

section \<open>Numbers\<close>

text \<open>
  A JavaScript number, as far as the version comparator can meet one: \<open>NaN\<close>, the two
  infinities, and the finite values, of which the model has the integers (\<open>-0\<close> is
  identified with \<open>0\<close>). A number with a fractional part is outside the model; no segment
  of a version string without a hyphen converts to one.
\<close>

datatype jsnum = NaN | NegInf | Fin int | PosInf

text \<open>The number of binary digits of a positive integer.\<close>

function bitlen :: "int \<Rightarrow> nat" where
  "bitlen n = (if n \<le> 0 then 0 else Suc (bitlen (n div 2)))"
  by pat_completeness auto
termination
  by (relation "measure nat") auto

declare bitlen.simps [simp del]

text \<open>
  A number is an IEEE 754 double: 53 significant binary digits. \<open>roundMagnitude n\<close> is the
  nearest integer with at most 53 significant digits to a positive \<open>n\<close>, a tie going to
  the even significand; \<open>toDouble\<close> is the number an exact integer result is stored as,
  an infinity from \<open>2 ^ 1024\<close> on.
\<close>

definition roundMagnitude :: "int \<Rightarrow> int" where
  "roundMagnitude n =
     (let e = bitlen n - 53; q = n div 2 ^ e; r = n mod 2 ^ e; half = 2 ^ (e - 1)
      in (if r > half \<or> (r = half \<and> odd q) then q + 1 else q) * 2 ^ e)"

definition toDouble :: "int \<Rightarrow> jsnum" where
  "toDouble x =
     (if \<bar>x\<bar> < 2 ^ 53 then Fin x
      else
        (let m = roundMagnitude \<bar>x\<bar>
         in if m \<ge> 2 ^ 1024 then (if x < 0 then NegInf else PosInf)
            else Fin (if x < 0 then - m else m)))"

definition MAX_SAFE_INTEGER :: int where
  "MAX_SAFE_INTEGER = 2 ^ 53 - 1"

definition isDigit :: "char \<Rightarrow> bool" where
  "isDigit c = (48 \<le> code c \<and> code c \<le> 57)"

definition decimal :: "string \<Rightarrow> int" where
  "decimal s = foldl (\<lambda>acc c. 10 * acc + (int (code c) - 48)) 0 s"

text \<open>
  \<open>Number(s)\<close> for a segment \<open>s\<close> of a version string: the empty string converts to 0
  and a string of decimal digits to its value, rounded to the nearest double (beyond 20
  significant digits ECMAScript lets an engine round a little differently; V8 rounds to
  the nearest). What \<open>Number\<close> makes of any other string (\<open>NaN\<close> for most, a number
  for forms such as \<open>1e3\<close>, \<open>0x10\<close> or \<open>+5\<close>) is the parameter \<open>other\<close>.
\<close>

definition Number_js :: "(string \<Rightarrow> jsnum) \<Rightarrow> string \<Rightarrow> jsnum" where
  "Number_js other s =
     (if s = [] then Fin 0
      else if list_all isDigit s then toDouble (decimal s)
      else other s)"

text \<open>
  \<open>parts[i] || 0\<close>: an index out of range reads \<open>undefined\<close>, and \<open>undefined\<close>, \<open>NaN\<close>
  and 0 are falsy.
\<close>

fun orZero :: "jsnum option \<Rightarrow> jsnum" where
  "orZero None = Fin 0"
| "orZero (Some NaN) = Fin 0"
| "orZero (Some v) = v"

text \<open>Subtraction and negation of numbers.\<close>

fun js_sub :: "jsnum \<Rightarrow> jsnum \<Rightarrow> jsnum" where
  "js_sub NaN _ = NaN"
| "js_sub _ NaN = NaN"
| "js_sub PosInf PosInf = NaN"
| "js_sub NegInf NegInf = NaN"
| "js_sub PosInf _ = PosInf"
| "js_sub NegInf _ = NegInf"
| "js_sub (Fin a) PosInf = NegInf"
| "js_sub (Fin a) NegInf = PosInf"
| "js_sub (Fin a) (Fin b) = toDouble (a - b)"

fun js_neg :: "jsnum \<Rightarrow> jsnum" where
  "js_neg NaN = NaN"
| "js_neg NegInf = PosInf"
| "js_neg PosInf = NegInf"
| "js_neg (Fin a) = Fin (- a)"

fun jsSign :: "jsnum \<Rightarrow> int" where
  "jsSign NaN = 0"
| "jsSign NegInf = - 1"
| "jsSign PosInf = 1"
| "jsSign (Fin n) = sgn n"

fun jsPositive :: "jsnum \<Rightarrow> bool" where
  "jsPositive PosInf = True"
| "jsPositive (Fin n) = (n > 0)"
| "jsPositive _ = False"

fun jsNegative :: "jsnum \<Rightarrow> bool" where
  "jsNegative NegInf = True"
| "jsNegative (Fin n) = (n < 0)"
| "jsNegative _ = False"

section \<open>The version comparator\<close>

text \<open>\<open>s.split(".")\<close>: the pieces between the dots, at least one.\<close>

fun split_dot :: "string \<Rightarrow> string list" where
  "split_dot [] = [[]]"
| "split_dot (c # cs) =
     (if c = CHR ''.'' then [] # split_dot cs
      else (case split_dot cs of [] \<Rightarrow> [[c]] | p # ps \<Rightarrow> (c # p) # ps))"

text \<open>\<open>xs[i]\<close>, with \<open>None\<close> for \<open>undefined\<close>.\<close>

definition at :: "'a list \<Rightarrow> nat \<Rightarrow> 'a option" where
  "at xs i = (if i < length xs then Some (xs ! i) else None)"

text \<open>
  The \<open>for\<close> loop of \<open>compareVersions\<close> from index \<open>i\<close> on, and \<open>compareVersions\<close>
  itself, the same text in both providers.
\<close>

function compareLoop :: "jsnum list \<Rightarrow> jsnum list \<Rightarrow> nat \<Rightarrow> jsnum" where
  "compareLoop partsA partsB i =
     (if i < max (length partsA) (length partsB) then
        (let partA = orZero (at partsA i); partB = orZero (at partsB i)
         in if partA \<noteq> partB then js_sub partA partB
            else compareLoop partsA partsB (i + 1))
      else Fin 0)"
  by pat_completeness auto
termination
  by (relation "measure (\<lambda>(partsA, partsB, i). max (length partsA) (length partsB) - i)") auto

declare compareLoop.simps [simp del]

definition compareVersions :: "(string \<Rightarrow> jsnum) \<Rightarrow> string \<Rightarrow> string \<Rightarrow> jsnum" where
  "compareVersions other a b =
     (let partsA = map (Number_js other) (split_dot a);
          partsB = map (Number_js other) (split_dot b)
      in compareLoop partsA partsB 0)"

section \<open>The reference comparison of the specification\<close>

text \<open>
  The specification's comparison, in its own words: the operands are strings of
  dot-separated non-negative integers; segments are compared from the most significant; a
  segment absent in one operand contributes 0; the first unequal pair decides the sign.
\<close>

definition isDottedIntegers :: "string \<Rightarrow> bool" where
  "isDottedIntegers v = list_all (\<lambda>seg. seg \<noteq> [] \<and> list_all isDigit seg) (split_dot v)"

definition segments :: "string \<Rightarrow> int list" where
  "segments v = map decimal (split_dot v)"

definition padZeros :: "nat \<Rightarrow> int list \<Rightarrow> int list" where
  "padZeros n xs = xs @ replicate (n - length xs) 0"

fun firstUnequal :: "(int \<times> int) list \<Rightarrow> int" where
  "firstUnequal [] = 0"
| "firstUnequal ((x, y) # ps) = (if x = y then firstUnequal ps else sgn (x - y))"

definition referenceCompare :: "int list \<Rightarrow> int list \<Rightarrow> int" where
  "referenceCompare xs ys =
     (let n = max (length xs) (length ys)
      in firstUnequal (zip (padZeros n xs) (padZeros n ys)))"

section \<open>The version completion pipeline\<close>

text \<open>
  \<open>Array.prototype.sort(comparefn)\<close>. ECMAScript makes the sort stable and, for a
  consistent comparator, fixes its result: the elements in the order of the comparator,
  equal ones in their original order. The stable insertion sort computes that list; an
  element moves behind another only when \<open>comparefn\<close> is positive.
\<close>

fun insertSorted :: "('a \<Rightarrow> 'a \<Rightarrow> jsnum) \<Rightarrow> 'a \<Rightarrow> 'a list \<Rightarrow> 'a list" where
  "insertSorted comparefn x [] = [x]"
| "insertSorted comparefn x (y # ys) =
     (if jsPositive (comparefn x y) then y # insertSorted comparefn x ys else x # y # ys)"

definition js_sort :: "('a \<Rightarrow> 'a \<Rightarrow> jsnum) \<Rightarrow> 'a list \<Rightarrow> 'a list" where
  "js_sort comparefn xs = foldr (insertSorted comparefn) xs []"

text \<open>\<open>s.startsWith(p)\<close> and \<open>s.includes(t)\<close>.\<close>

fun startsWith :: "string \<Rightarrow> string \<Rightarrow> bool" where
  "startsWith s [] = True"
| "startsWith [] (p # ps) = False"
| "startsWith (c # cs) (p # ps) = (c = p \<and> startsWith cs ps)"

fun includes_str :: "string \<Rightarrow> string \<Rightarrow> bool" where
  "includes_str [] t = (t = [])"
| "includes_str (c # cs) t = (startsWith (c # cs) t \<or> includes_str cs t)"

text \<open>
  The chain \<open>versions.filter(...).sort(...).slice(0, 10)\<close> of \<open>getVersionCompletions\<close>,
  the same in both providers.
\<close>

definition filteredVersions :: "(string \<Rightarrow> jsnum) \<Rightarrow> string list \<Rightarrow> string \<Rightarrow> string list" where
  "filteredVersions other versions versionPrefix =
     take 10
       (js_sort (\<lambda>a b. compareVersions other b a)
          (filter (\<lambda>v. \<not> includes_str v ''-'' \<and> startsWith v versionPrefix) versions))"

section \<open>Completion items\<close>

text \<open>
  A \<open>vscode.CompletionItem\<close> with the fields the providers compute from the data alone.
  The \<open>documentation\<close> and \<open>detail\<close> texts, which go through the locale-dependent
  \<open>toLocaleString\<close>, are left out.
\<close>

record CompletionItem =
  label :: "string option"
  insertText :: string
  sortText :: string

text \<open>
  A value in a template literal: a string stands for itself and \<open>undefined\<close> reads
  \<open>undefined\<close>.
\<close>

definition templateText :: "string option \<Rightarrow> string" where
  "templateText v = (case v of None \<Rightarrow> ''undefined'' | Some t \<Rightarrow> t)"

text \<open>The decimal digits of a non-negative integer.\<close>

definition digitChar :: "int \<Rightarrow> char" where
  "digitChar d = char_of (nat (48 + d))"

function digits :: "int \<Rightarrow> string" where
  "digits n = (if n < 10 then [digitChar n] else digits (n div 10) @ [digitChar (n mod 10)])"
  by pat_completeness auto
termination
  by (relation "measure nat") auto

declare digits.simps [simp del]

text \<open>
  \<open>String(x)\<close> for a number \<open>x\<close>. A positive integer-valued double \<open>v\<close> is printed
  from the shortest decimal \<open>s * 10 ^ (n - k)\<close>, \<open>s\<close> of \<open>k\<close> digits, that converts
  back to \<open>v\<close>; of several such \<open>s\<close> the one nearest to \<open>v\<close>, the even one of two
  equally near. \<open>decimalsAt v k n\<close> lists the candidates \<open>s\<close> for given \<open>k\<close> and \<open>n\<close>
  with their distance from \<open>v\<close>.
\<close>

definition decimalsAt :: "int \<Rightarrow> nat \<Rightarrow> nat \<Rightarrow> (int \<times> int \<times> nat) list" where
  "decimalsAt v k n =
     (if n < k then []
      else
        map (\<lambda>s. (\<bar>s * 10 ^ (n - k) - v\<bar>, s, n))
          (filter (\<lambda>s. 10 ^ (k - 1) \<le> s \<and> s < 10 ^ k \<and> toDouble (s * 10 ^ (n - k)) = Fin v)
             [v div 10 ^ (n - k), v div 10 ^ (n - k) + 1]))"

text \<open>The nearest of the candidates, the even \<open>s\<close> of two equally near.\<close>

fun nearer :: "int \<times> int \<times> nat \<Rightarrow> int \<times> int \<times> nat \<Rightarrow> bool" where
  "nearer (d, s, n) (d', s', n') = (d < d' \<or> (d = d' \<and> even s \<and> odd s'))"

fun nearest :: "(int \<times> int \<times> nat) list \<Rightarrow> (int \<times> int \<times> nat) option" where
  "nearest [] = None"
| "nearest (c # cs) =
     (case nearest cs of
        None \<Rightarrow> Some c
      | Some c' \<Rightarrow> if nearer c' c then Some c' else Some c)"

text \<open>
  The search for the least \<open>k\<close>, from \<open>k\<close> on; 17 digits always suffice for a double.
  The result is \<open>(s, k, n)\<close>.
\<close>

fun shortestFrom :: "int \<Rightarrow> nat \<Rightarrow> nat \<Rightarrow> int \<times> nat \<times> nat" where
  "shortestFrom v 0 k = (v, length (digits v), length (digits v))"
| "shortestFrom v (Suc fuel) k =
     (case nearest (decimalsAt v k (length (digits v)) @ decimalsAt v k (length (digits v) + 1)) of
        Some (d, s, n) \<Rightarrow> (s, k, n)
      | None \<Rightarrow> shortestFrom v fuel (k + 1))"

text \<open>
  Below \<open>2 ^ 53\<close> every integer is a double of its own and is printed with all its
  digits. From \<open>10 ^ 21\<close> on (\<open>n > 21\<close>) the exponent form is used.
\<close>

definition stringPositive :: "int \<Rightarrow> string" where
  "stringPositive v =
     (if v < 2 ^ 53 then digits v
      else
        (case shortestFrom v 17 1 of
           (s, k, n) \<Rightarrow>
             if n \<le> 21 then digits s @ replicate (n - k) (CHR ''0'')
             else
               (case digits s of
                  [] \<Rightarrow> []
                | d # ds \<Rightarrow> d # (if ds = [] then [] else CHR ''.'' # ds))
               @ ''e+'' @ digits (int n - 1)))"

fun String_js :: "jsnum \<Rightarrow> string" where
  "String_js NaN = ''NaN''"
| "String_js PosInf = ''Infinity''"
| "String_js NegInf = ''-Infinity''"
| "String_js (Fin n) = (if n < 0 then CHR ''-'' # stringPositive (- n) else stringPositive n)"

text \<open>\<open>s.padStart(targetLength, c)\<close> for a pad string of the one character \<open>c\<close>.\<close>

definition padStart :: "string \<Rightarrow> nat \<Rightarrow> char \<Rightarrow> string" where
  "padStart s targetLength c = replicate (targetLength - length s) c @ s"

text \<open>The last \<open>k\<close> decimal digits of \<open>n\<close>, a fixed-width rendering used in the proofs.\<close>

primrec fixedDigits :: "nat \<Rightarrow> int \<Rightarrow> string" where
  "fixedDigits 0 n = []"
| "fixedDigits (Suc k) n = fixedDigits k (n div 10) @ [digitChar (n mod 10)]"

text \<open>
  \<open>createPackageCompletionItem\<close> of \<open>DirectiveCompletionProvider\<close>, the same text as
  \<open>createCompletionItem\<close> of \<open>PackageCompletionProvider\<close>. \<open>pkg.totalDownloads\<close> is
  truthy when it is present and not 0; the subtraction is one of numbers.
\<close>

definition createPackageCompletionItem :: "NuGetPackage \<Rightarrow> CompletionItem" where
  "createPackageCompletionItem pkg =
     \<lparr>label = id pkg,
      insertText = templateText (id pkg) @ ''@'' @ templateText (version pkg),
      sortText =
        (case totalDownloads pkg of
           None \<Rightarrow> ''9999999999''
         | Some n \<Rightarrow>
             if n \<noteq> 0 then padStart (String_js (js_sub (Fin 999999999) (Fin n))) 10 (CHR ''0'')
             else ''9999999999'')\<rparr>"

text \<open>
  The editor orders suggestions by comparing their \<open>sortText\<close> as strings: \<open>a < b\<close> on
  JavaScript strings, code unit by code unit. The smaller key ranks above.
\<close>

fun lessString :: "string \<Rightarrow> string \<Rightarrow> bool" where
  "lessString [] [] = False"
| "lessString [] (d # t) = True"
| "lessString (c # s) [] = False"
| "lessString (c # s) (d # t) = (code c < code d \<or> (c = d \<and> lessString s t))"

text \<open>
  \<open>getVersionCompletions\<close>: the request for the version index of the lowercased package
  id throws, or its body has a \<open>versions\<close> list or none; the items are made from the
  filtered, sorted and truncated list.
\<close>

datatype versions_outcome = VersionsFailed | VersionsBody "string list option"

definition getVersionCompletions ::
  "(string \<Rightarrow> jsnum) \<Rightarrow> (jsstring \<Rightarrow> versions_outcome) \<Rightarrow> string \<Rightarrow> string \<Rightarrow> CompletionItem list" where
  "getVersionCompletions other net packageId versionPrefix =
     (case net (toLowerCase (js packageId)) of
        VersionsFailed \<Rightarrow> []
      | VersionsBody body \<Rightarrow>
          map (\<lambda>v. \<lparr>label = Some v, insertText = v, sortText = padStart v 20 (CHR ''0'')\<rparr>)
            (filteredVersions other (case body of None \<Rightarrow> [] | Some versions \<Rightarrow> versions)
               versionPrefix))"

text \<open>
  \<open>getPackageCompletions\<close> of \<open>DirectiveCompletionProvider\<close>: an empty query returns
  no item before anything else is done.
\<close>

definition getPackageCompletions ::
  "provider_state \<Rightarrow> jsstring \<Rightarrow> int \<Rightarrow> (jsstring \<Rightarrow> search_outcome) \<Rightarrow> CompletionItem list \<times> provider_state" where
  "getPackageCompletions s query now net =
     (if query = [] then ([], s)
      else
        (case searchPackages s query now net of
           (packages, s') \<Rightarrow> (map createPackageCompletionItem packages, s')))"

section \<open>The directive patterns\<close>

text \<open>
  The character classes of the regular expressions, on code units below 256: \<open>\s\<close>
  (tab, line feed, vertical tab, form feed, carriage return, space, no-break space),
  \<open>\w\<close> (ASCII letters, digits, underscore), and the line terminators that \<open>.\<close> does
  not match.
\<close>

definition isSpace :: "char \<Rightarrow> bool" where
  "isSpace c = (code c \<in> {9, 10, 11, 12, 13, 32, 160})"

definition isWordChar :: "char \<Rightarrow> bool" where
  "isWordChar c =
     ((48 \<le> code c \<and> code c \<le> 57) \<or> (65 \<le> code c \<and> code c \<le> 90)
      \<or> (97 \<le> code c \<and> code c \<le> 122) \<or> code c = 95)"

definition isLineTerminator :: "char \<Rightarrow> bool" where
  "isLineTerminator c = (code c = 10 \<or> code c = 13)"

text \<open>
  \<open>^#:package\s+\<close>, the head of the three package patterns: what follows the
  directive and its white space, when the string starts that way. The greedy \<open>\s+\<close>
  takes all the white space: every pattern continues with something that is not white
  space or may be empty, so giving some back never helps.
\<close>

definition afterPackage :: "string \<Rightarrow> string option" where
  "afterPackage s =
     (if startsWith s ''#:package'' then
        (case drop 9 s of
           [] \<Rightarrow> None
         | c # rest \<Rightarrow> if isSpace c then Some (dropWhile isSpace rest) else None)
      else None)"

text \<open>
  \<open>(\w+(?:\.\w+)*)\<close> at the head of a string: the longest dotted name and the rest. The
  greedy match is the only one that counts: a shorter match is followed by a word
  character or a dot, and the patterns go on with \<open>@\<close>, or with parts that may be empty.
\<close>

function dottedName :: "string \<Rightarrow> (string \<times> string) option" where
  "dottedName s =
     (if takeWhile isWordChar s = [] then None
      else
        (case dropWhile isWordChar s of
           [] \<Rightarrow> Some (takeWhile isWordChar s, [])
         | c # rest \<Rightarrow>
             if c = CHR ''.'' then
               (case dottedName rest of
                  None \<Rightarrow> Some (takeWhile isWordChar s, c # rest)
                | Some (name, rest') \<Rightarrow> Some (takeWhile isWordChar s @ c # name, rest'))
             else Some (takeWhile isWordChar s, c # rest)))"
  by pat_completeness auto
termination
proof (relation "measure length")
  show "wf (measure length)" by simp
next
  fix s :: string and c rest
  assume "dropWhile isWordChar s = c # rest"
  then have "length (c # rest) \<le> length s" by (metis length_dropWhile_le)
  then show "(rest, s) \<in> measure length" by simp
qed

declare dottedName.simps [simp del]

text \<open>\<open>linePrefix.match(/^#:package\s+([^@\s]*)/)\<close>: the captured group.\<close>

definition packageMatch :: "string \<Rightarrow> string option" where
  "packageMatch linePrefix =
     (case afterPackage linePrefix of
        None \<Rightarrow> None
      | Some rest \<Rightarrow> Some (takeWhile (\<lambda>c. c \<noteq> CHR ''@'' \<and> \<not> isSpace c) rest))"

text \<open>\<open>linePrefix.match(/^#:package\s+(\w+(?:\.\w+)*)@(.*)$/)\<close>: the two groups.\<close>

definition packageVersionMatch :: "string \<Rightarrow> (string \<times> string) option" where
  "packageVersionMatch linePrefix =
     (case afterPackage linePrefix of
        None \<Rightarrow> None
      | Some rest \<Rightarrow>
          (case dottedName rest of
             None \<Rightarrow> None
           | Some (packageId, r) \<Rightarrow>
               (case r of
                  [] \<Rightarrow> None
                | c # versionPrefix \<Rightarrow>
                    if c = CHR ''@'' \<and> \<not> list_ex isLineTerminator versionPrefix
                    then Some (packageId, versionPrefix) else None)))"

text \<open>\<open>line.text.match(/^#:package\s+(\w+(?:\.\w+)*)@?([\d\.]*)/)\<close>: the two groups.\<close>

definition packageHoverMatch :: "string \<Rightarrow> (string \<times> string) option" where
  "packageHoverMatch lineText =
     (case afterPackage lineText of
        None \<Rightarrow> None
      | Some rest \<Rightarrow>
          (case dottedName rest of
             None \<Rightarrow> None
           | Some (packageId, r) \<Rightarrow>
               Some (packageId,
                     takeWhile (\<lambda>c. isDigit c \<or> c = CHR ''.'')
                       (case r of [] \<Rightarrow> [] | c # v \<Rightarrow> if c = CHR ''@'' then v else c # v))))"

text \<open>\<open>s.substring(a, b)\<close> for non-negative indices: both are clamped to the length and swapped when out of order.\<close>

definition substring :: "string \<Rightarrow> nat \<Rightarrow> nat \<Rightarrow> string" where
  "substring s a b =
     (let a' = min a (length s); b' = min b (length s)
      in take (max a' b' - min a' b') (drop (min a' b') s))"

section \<open>The completion resolvers\<close>

text \<open>
  The calls a resolver makes into the client for one request: \<open>searchPackages(query)\<close>,
  or the version fetch of \<open>getVersionCompletions(packageId, versionPrefix)\<close>.
\<close>

datatype client_call = SearchPackages string | FetchVersions string

definition getPackageCompletions_calls :: "string \<Rightarrow> client_call list" where
  "getPackageCompletions_calls query = (if query = [] then [] else [SearchPackages query])"

definition getVersionCompletions_calls :: "string \<Rightarrow> string \<Rightarrow> client_call list" where
  "getVersionCompletions_calls packageId versionPrefix = [FetchVersions packageId]"

text \<open>
  \<open>DirectiveCompletionProvider.provideCompletionItems\<close> on the text of the line and the
  cursor's column. The \<open>#:sdk\<close>, \<open>#:property\<close> and directive-name branches, which are
  tried when the line is no package directive, read the static tables only.
\<close>

definition DirectiveCompletionProvider_calls :: "string \<Rightarrow> nat \<Rightarrow> client_call list" where
  "DirectiveCompletionProvider_calls text character =
     (let linePrefix = substring text 0 character in
      case packageMatch linePrefix of
        Some query \<Rightarrow>
          (case packageVersionMatch linePrefix of
             Some (packageId, versionPrefix) \<Rightarrow> getVersionCompletions_calls packageId versionPrefix
           | None \<Rightarrow> getPackageCompletions_calls query)
      | None \<Rightarrow> [])"

text \<open>
  \<open>PackageCompletionProvider.provideCompletionItems\<close>: \<open>searchPackages(query)\<close> is called
  with \<open>packageMatch[1] || ""\<close> as it is.
\<close>

definition PackageCompletionProvider_calls :: "string \<Rightarrow> nat \<Rightarrow> client_call list" where
  "PackageCompletionProvider_calls text character =
     (let linePrefix = substring text 0 character in
      case packageMatch linePrefix of
        None \<Rightarrow> []
      | Some query \<Rightarrow>
          (case packageVersionMatch linePrefix of
             Some (packageId, versionPrefix) \<Rightarrow> getVersionCompletions_calls packageId versionPrefix
           | None \<Rightarrow> [SearchPackages query]))"

section \<open>The hover providers\<close>

text \<open>
  A package hover: the record of the package it describes (the first result of the
  lookup) and the word range it is attached to. Its Markdown text is assembled from the
  record and is not modelled.
\<close>

record Hover =
  packageData :: SearchItem
  hoverRange :: "nat \<times> nat"

text \<open>
  The \<open>try\<close> block shared by the two hover providers: the lookup
  \<open>q=packageid:<packageId>&take=1\<close> throws, or has no first result, or gives the hover.
\<close>

definition fetchPackageHover ::
  "(string \<Rightarrow> search_outcome) \<Rightarrow> string \<Rightarrow> nat \<times> nat \<Rightarrow> Hover option" where
  "fetchPackageHover net packageId wordRange =
     (case net packageId of
        Ok items \<Rightarrow>
          (case items of
             [] \<Rightarrow> None
           | item # _ \<Rightarrow> Some \<lparr>packageData = item, hoverRange = wordRange\<rparr>)
      | _ \<Rightarrow> None)"

text \<open>
  \<open>PackageHoverProvider.provideHover\<close> on the text of the line, the result of
  \<open>document.getWordRangeAtPosition(position)\<close> (the columns where the word starts and
  ends, or nothing) and the remote lookup.
\<close>

definition PackageHoverProvider_provideHover ::
  "string \<Rightarrow> (nat \<times> nat) option \<Rightarrow> (string \<Rightarrow> search_outcome) \<Rightarrow> Hover option" where
  "PackageHoverProvider_provideHover lineText wordRange net =
     (case packageHoverMatch lineText of
        None \<Rightarrow> None
      | Some (packageId, ver) \<Rightarrow>
          (case wordRange of
             None \<Rightarrow> None
           | Some (start, end') \<Rightarrow>
               if \<not> includes_str (substring lineText start end') (hd (split_dot packageId))
               then None
               else fetchPackageHover net packageId (start, end')))"

text \<open>\<open>DirectiveHoverProvider.getPackageHover\<close>.\<close>

definition getPackageHover ::
  "string \<Rightarrow> (nat \<times> nat) option \<Rightarrow> (string \<Rightarrow> search_outcome) \<Rightarrow> Hover option" where
  "getPackageHover packageId wordRange net =
     (case wordRange of
        None \<Rightarrow> None
      | Some r \<Rightarrow> fetchPackageHover net packageId r)"

text \<open>
  The package branch of \<open>DirectiveHoverProvider.provideHover\<close>. The outer \<open>None\<close> says
  that the line is no package directive; the \<open>#:sdk\<close> and \<open>#:property\<close> branches, which
  take over then, are not modelled.
\<close>

definition DirectiveHoverProvider_provideHover ::
  "string \<Rightarrow> (nat \<times> nat) option \<Rightarrow> (string \<Rightarrow> search_outcome) \<Rightarrow> Hover option option" where
  "DirectiveHoverProvider_provideHover lineText wordRange net =
     (case packageHoverMatch lineText of
        Some (packageId, ver) \<Rightarrow> Some (getPackageHover packageId wordRange net)
      | None \<Rightarrow> None)"

text \<open>A package record with a given download count.\<close>

definition popularPackage :: "int \<Rightarrow> NuGetPackage" where
  "popularPackage n =
     \<lparr>id = Some ''Newtonsoft.Json'', version = Some ''13.0.3'', description = None,
      totalDownloads = Some n\<rparr>"

section \<open>Properties of the cache\<close>

subsection \<open>Lookup, hit and miss\<close>

lemma cacheLookup_requests [simp]:
  "cacheLookup (s\<lparr>requests := r\<rparr>) k now = cacheLookup s k now"
  by (simp add: cacheLookup_def split: option.splits)

lemma searchPackages_hit:
  "cacheLookup s (toLowerCase q) now = Some P \<Longrightarrow> searchPackages s q now net = (P, s)"
  by (simp add: searchPackages_def)

lemma searchPackages_miss_ok:
  "cacheLookup s (toLowerCase q) now = None \<Longrightarrow> net q = Ok items \<Longrightarrow>
   searchPackages s q now net =
     (map toPackage items,
      s\<lparr>requests := requests s @ [q],
        packageCache := (packageCache s)(toLowerCase q \<mapsto> map toPackage items),
        cacheExpiry := (cacheExpiry s)(toLowerCase q \<mapsto> now + CACHE_DURATION)\<rparr>)"
  by (simp add: searchPackages_def Let_def)

lemma searchPackages_miss_fail:
  "cacheLookup s (toLowerCase q) now = None \<Longrightarrow> \<forall>items. net q \<noteq> Ok items \<Longrightarrow>
   searchPackages s q now net = ([], s\<lparr>requests := requests s @ [q]\<rparr>)"
  by (cases "net q") (simp_all add: searchPackages_def Let_def)

lemma cacheLookup_after_store:
  "cacheLookup (s\<lparr>requests := r, packageCache := (packageCache s)(k \<mapsto> P),
                cacheExpiry := (cacheExpiry s)(k \<mapsto> e)\<rparr>) k now =
     (if e > now then Some P else None)"
  by (simp add: cacheLookup_def)

lemma cacheLookup_None_mono:
  "cacheLookup s k now = None \<Longrightarrow> now \<le> now2 \<Longrightarrow> cacheLookup s k now2 = None"
  by (auto simp: cacheLookup_def split: option.splits if_splits)

lemma searchPackages_miss_requests:
  "cacheLookup s (toLowerCase q) now = None \<Longrightarrow>
   requests (snd (searchPackages s q now net)) = requests s @ [q]"
  by (cases "net q") (simp_all add: searchPackages_def Let_def)

subsection \<open>Evaluation on the example data\<close>

lemma char_of_eq: "n < 256 \<Longrightarrow> (char_of (n::nat) = c) = (of_char c = n)"
  by (metis of_char_of char_of_char mod_less)

lemma toLowerCase_json: "toLowerCase (js ''json'') = js ''json''"
  by (simp add: toLowerCase_def js_def code_def lowerUnit_def)

lemma toPackage_humanizer: "toPackage humanizer = humanizerPackage"
  by (simp add: toPackage_def humanizer_def humanizerPackage_def)

lemma cacheLookup_emptyState: "cacheLookup emptyState k now = None"
  by (simp add: cacheLookup_def emptyState_def)

lemma run_json:
  "searchPackages emptyState (js ''json'') 1000 (\<lambda>q. Ok [humanizer]) =
     ([humanizerPackage],
      \<lparr>packageCache = [js ''json'' \<mapsto> [humanizerPackage]], cacheExpiry = [js ''json'' \<mapsto> 301000],
       requests = [js ''json'']\<rparr>)"
  by (simp add: searchPackages_def Let_def toLowerCase_json cacheLookup_emptyState
      toPackage_humanizer CACHE_DURATION_def) (simp add: emptyState_def)

subsection \<open>The validity window\<close>

text \<open>
  Claim C1. After a successful \<open>searchPackages(q)\<close> (served from the cache, or fetched
  with a good response) the entry of the lowercased query has an \<open>expiresAt\<close>, which
  is \<open>now + CACHE_DURATION\<close> (5 minutes) when the call fetched. A second
  \<open>searchPackages(q)\<close> at any time strictly before \<open>expiresAt\<close> returns the same
  package list and leaves the state, request trace included, as it is, whatever the remote
  would answer. At or after \<open>expiresAt\<close> the lookup finds nothing, the second call issues
  a request for \<open>q\<close>, and a good response overwrites the entry with the new list and
  the expiry \<open>now2 + CACHE_DURATION\<close>.
\<close>

theorem searchPackages_cache_window:
  assumes ok: "cacheLookup s (toLowerCase q) now \<noteq> None \<or> (\<exists>items. net q = Ok items)"
    and run: "searchPackages s q now net = (P, s1)"
  shows "\<exists>expiresAt. cacheExpiry s1 (toLowerCase q) = Some expiresAt
       \<and> (cacheLookup s (toLowerCase q) now = None \<longrightarrow> expiresAt = now + CACHE_DURATION)
       \<and> (\<forall>now2 net2. now2 < expiresAt \<longrightarrow> searchPackages s1 q now2 net2 = (P, s1))
       \<and> (\<forall>now2 net2. expiresAt \<le> now2 \<longrightarrow>
             cacheLookup s1 (toLowerCase q) now2 = None
           \<and> requests (snd (searchPackages s1 q now2 net2)) = requests s1 @ [q]
           \<and> (\<forall>items2. net2 q = Ok items2 \<longrightarrow>
                searchPackages s1 q now2 net2 =
                  (map toPackage items2,
                   s1\<lparr>requests := requests s1 @ [q],
                      packageCache := (packageCache s1)(toLowerCase q \<mapsto> map toPackage items2),
                      cacheExpiry := (cacheExpiry s1)(toLowerCase q \<mapsto> now2 + CACHE_DURATION)\<rparr>)))"
proof -
  let ?k = "toLowerCase q"
  have entry: "\<exists>e. packageCache s1 ?k = Some P \<and> cacheExpiry s1 ?k = Some e
        \<and> (cacheLookup s ?k now = None \<longrightarrow> e = now + CACHE_DURATION)"
  proof (cases "cacheLookup s ?k now")
    case None
    with ok obtain items where items: "net q = Ok items" by auto
    show ?thesis
      using searchPackages_miss_ok [of s q now net items] None items run
      by auto
  next
    case (Some C)
    then have "searchPackages s q now net = (C, s)" by (rule searchPackages_hit)
    with run have "C = P" "s1 = s" by simp_all
    with Some show ?thesis
      by (auto simp: cacheLookup_def split: option.splits if_splits)
  qed
  then obtain e where pc: "packageCache s1 ?k = Some P" and ce: "cacheExpiry s1 ?k = Some e"
    and fresh: "cacheLookup s ?k now = None \<longrightarrow> e = now + CACHE_DURATION" by (elim exE conjE)
  have valid: "searchPackages s1 q now2 net2 = (P, s1)" if "now2 < e" for now2 net2
  proof -
    have "cacheLookup s1 ?k now2 = Some P" using that pc ce by (simp add: cacheLookup_def)
    then show ?thesis by (rule searchPackages_hit)
  qed
  have expired: "cacheLookup s1 ?k now2 = None" if "e \<le> now2" for now2
    using that pc ce by (simp add: cacheLookup_def)
  have refetch: "requests (snd (searchPackages s1 q now2 net2)) = requests s1 @ [q]"
    if "e \<le> now2" for now2 net2
    using expired [OF that] by (rule searchPackages_miss_requests)
  have overwrite: "searchPackages s1 q now2 net2 =
                  (map toPackage items2,
                   s1\<lparr>requests := requests s1 @ [q],
                      packageCache := (packageCache s1)(?k \<mapsto> map toPackage items2),
                      cacheExpiry := (cacheExpiry s1)(?k \<mapsto> now2 + CACHE_DURATION)\<rparr>)"
    if "e \<le> now2" "net2 q = Ok items2" for now2 net2 items2
    using searchPackages_miss_ok [of s1 q now2 net2 items2] expired [OF that(1)] that(2)
    by simp
  show ?thesis
  proof (intro exI conjI allI impI)
    show "cacheExpiry s1 ?k = Some e" by (fact ce)
  qed (use fresh valid expired refetch overwrite in simp_all)
qed

theorem searchPackages_cache_window_witness:
  "searchPackages emptyState (js ''json'') 1000 (\<lambda>q. Ok [humanizer]) =
     ([humanizerPackage],
      \<lparr>packageCache = [js ''json'' \<mapsto> [humanizerPackage]], cacheExpiry = [js ''json'' \<mapsto> 301000],
       requests = [js ''json'']\<rparr>)
   \<and> searchPackages
     \<lparr>packageCache = [js ''json'' \<mapsto> [humanizerPackage]], cacheExpiry = [js ''json'' \<mapsto> 301000],
      requests = [js ''json'']\<rparr> (js ''json'') 300999 (\<lambda>q. Timeout) =
     ([humanizerPackage],
      \<lparr>packageCache = [js ''json'' \<mapsto> [humanizerPackage]], cacheExpiry = [js ''json'' \<mapsto> 301000],
       requests = [js ''json'']\<rparr>)
   \<and> searchPackages
     \<lparr>packageCache = [js ''json'' \<mapsto> [humanizerPackage]], cacheExpiry = [js ''json'' \<mapsto> 301000],
      requests = [js ''json'']\<rparr> (js ''json'') 301000 (\<lambda>q. Ok []) =
     ([],
      \<lparr>packageCache = [js ''json'' \<mapsto> []], cacheExpiry = [js ''json'' \<mapsto> 601000],
       requests = [js ''json'', js ''json'']\<rparr>)"
proof -
  let ?s1 = "\<lparr>packageCache = [js ''json'' \<mapsto> [humanizerPackage]], cacheExpiry = [js ''json'' \<mapsto> 301000],
      requests = [js ''json'']\<rparr>"
  have ok: "cacheLookup emptyState (toLowerCase (js ''json'')) 1000 \<noteq> None
      \<or> (\<exists>items. (\<lambda>q. Ok [humanizer]) (js ''json'') = Ok items)" by simp
  from searchPackages_cache_window [of emptyState "js ''json''" 1000 "\<lambda>q. Ok [humanizer]", OF ok run_json]
  obtain e where e: "cacheExpiry ?s1 (toLowerCase (js ''json'')) = Some e"
    and valid: "\<And>now2 net2. now2 < e \<Longrightarrow> searchPackages ?s1 (js ''json'') now2 net2 = ([humanizerPackage], ?s1)"
    and expired: "\<And>now2 net2 items2. e \<le> now2 \<Longrightarrow> net2 (js ''json'') = Ok items2 \<Longrightarrow>
        searchPackages ?s1 (js ''json'') now2 net2 =
                  (map toPackage items2,
                   ?s1\<lparr>requests := requests ?s1 @ [js ''json''],
                      packageCache := (packageCache ?s1)(toLowerCase (js ''json'') \<mapsto> map toPackage items2),
                      cacheExpiry := (cacheExpiry ?s1)(toLowerCase (js ''json'') \<mapsto> now2 + CACHE_DURATION)\<rparr>)"
    by (elim exE conjE) blast
  from e have "e = 301000" by (simp add: toLowerCase_json)
  with valid [of 300999 "\<lambda>q. Timeout"] expired [of 301000 "\<lambda>q. Ok []" "[]"]
  have "searchPackages ?s1 (js ''json'') 300999 (\<lambda>q. Timeout) = ([humanizerPackage], ?s1)"
    and "searchPackages ?s1 (js ''json'') 301000 (\<lambda>q. Ok []) =
     ([],
      \<lparr>packageCache = [js ''json'' \<mapsto> []], cacheExpiry = [js ''json'' \<mapsto> 601000],
       requests = [js ''json'', js ''json'']\<rparr>)"
    by (simp_all add: toLowerCase_json CACHE_DURATION_def)
  with run_json show ?thesis by simp
qed

subsection \<open>Failures are not cached\<close>

text \<open>
  Claim C2, as amended. The failures that \<open>searchPackages\<close> handles are those on which
  its \<open>try\<close> block throws: a transport error, a timeout, or a body on which the map over
  \<open>response.data.data\<close> throws. When the lookup misses and the request fails in one of
  these ways, \<open>searchPackages\<close> returns the empty list as an ordinary result, leaves both
  cache maps as they were and records one request; a later identical call (the clock not
  running backwards) misses again and issues the request again. A body on which the map
  does not throw is a result whatever the shape of its elements: the mapped list is
  returned and stored under the key, valid for \<open>CACHE_DURATION\<close>.
\<close>

theorem searchPackages_failure_not_cached:
  assumes miss: "cacheLookup s (toLowerCase q) now = None"
    and run: "searchPackages s q now net = (P, s1)"
  shows "((\<forall>items. net q \<noteq> Ok items) \<longrightarrow>
            P = [] \<and> packageCache s1 = packageCache s \<and> cacheExpiry s1 = cacheExpiry s
          \<and> requests s1 = requests s @ [q]
          \<and> (\<forall>now2 net2. now \<le> now2 \<longrightarrow>
               cacheLookup s1 (toLowerCase q) now2 = None
             \<and> requests (snd (searchPackages s1 q now2 net2)) = requests s @ [q, q]))
       \<and> (\<forall>items. net q = Ok items \<longrightarrow>
            P = map toPackage items
          \<and> packageCache s1 (toLowerCase q) = Some (map toPackage items)
          \<and> cacheExpiry s1 (toLowerCase q) = Some (now + CACHE_DURATION)
          \<and> requests s1 = requests s @ [q])"
proof -
  have thrown: "P = [] \<and> packageCache s1 = packageCache s \<and> cacheExpiry s1 = cacheExpiry s
          \<and> requests s1 = requests s @ [q]
          \<and> (\<forall>now2 net2. now \<le> now2 \<longrightarrow>
               cacheLookup s1 (toLowerCase q) now2 = None
             \<and> requests (snd (searchPackages s1 q now2 net2)) = requests s @ [q, q])"
    if fail: "\<forall>items. net q \<noteq> Ok items"
  proof -
    have eq: "P = []" "s1 = s\<lparr>requests := requests s @ [q]\<rparr>"
      using searchPackages_miss_fail [of s q now net] miss fail run by simp_all
    have again: "cacheLookup s1 (toLowerCase q) now2 = None
          \<and> requests (snd (searchPackages s1 q now2 net2)) = requests s @ [q, q]"
      if "now \<le> now2" for now2 net2
    proof -
      have m: "cacheLookup s1 (toLowerCase q) now2 = None"
        using cacheLookup_None_mono [OF miss that] by (simp add: eq)
      from searchPackages_miss_requests [OF m, of net2] m show ?thesis by (simp add: eq)
    qed
    show ?thesis using eq again by simp
  qed
  have returned: "P = map toPackage items
          \<and> packageCache s1 (toLowerCase q) = Some (map toPackage items)
          \<and> cacheExpiry s1 (toLowerCase q) = Some (now + CACHE_DURATION)
          \<and> requests s1 = requests s @ [q]"
    if "net q = Ok items" for items
    using searchPackages_miss_ok [of s q now net items] miss that run by auto
  show ?thesis using thrown returned by blast
qed

theorem searchPackages_failure_not_cached_witness:
  "searchPackages emptyState (js ''json'') 1000 (\<lambda>q. Timeout) =
     ([], \<lparr>packageCache = Map.empty, cacheExpiry = Map.empty, requests = [js ''json'']\<rparr>)
   \<and> requests (snd (searchPackages
        \<lparr>packageCache = Map.empty, cacheExpiry = Map.empty, requests = [js ''json'']\<rparr>
        (js ''json'') 1001 (\<lambda>q. Malformed))) = [js ''json'', js ''json'']
   \<and> packageCache (snd (searchPackages emptyState (js ''json'') 1000 (\<lambda>q. Ok [humanizer])))
        (js ''json'') = Some [humanizerPackage]"
proof -
  let ?s1 = "\<lparr>packageCache = Map.empty, cacheExpiry = Map.empty, requests = [js ''json'']\<rparr>"
  have run: "searchPackages emptyState (js ''json'') 1000 (\<lambda>q. Timeout) = ([], ?s1)"
    by (simp add: searchPackages_def Let_def cacheLookup_emptyState) (simp add: emptyState_def)
  have fail: "\<forall>items. (\<lambda>q. Timeout) (js ''json'') \<noteq> Ok items" by simp
  from searchPackages_failure_not_cached
         [of emptyState "js ''json''" 1000 "\<lambda>q. Timeout", OF cacheLookup_emptyState run] fail
  have again: "\<forall>now2 net2. 1000 \<le> now2 \<longrightarrow>
            cacheLookup ?s1 (toLowerCase (js ''json'')) now2 = None
          \<and> requests (snd (searchPackages ?s1 (js ''json'') now2 net2)) = requests emptyState @ [js ''json'', js ''json'']"
    by blast
  from again [rule_format, of 1001 "\<lambda>q. Malformed"]
  have second: "requests (snd (searchPackages ?s1 (js ''json'') 1001 (\<lambda>q. Malformed))) = [js ''json'', js ''json'']"
    by (simp add: emptyState_def)
  from searchPackages_failure_not_cached
         [of emptyState "js ''json''" 1000 "\<lambda>q. Ok [humanizer]", OF cacheLookup_emptyState run_json]
  have "packageCache
          \<lparr>packageCache = [js ''json'' \<mapsto> [humanizerPackage]], cacheExpiry = [js ''json'' \<mapsto> 301000],
           requests = [js ''json'']\<rparr> (toLowerCase (js ''json'')) = Some (map toPackage [humanizer])"
    by blast
  then have third: "packageCache (snd (searchPackages emptyState (js ''json'') 1000 (\<lambda>q. Ok [humanizer])))
        (js ''json'') = Some [humanizerPackage]"
    by (simp add: run_json toLowerCase_json toPackage_humanizer)
  from run second third show ?thesis by simp
qed

text \<open>
  Claim C2 as stated fails on a malformed body that the code reads without throwing. The
  body \<open>{data: [{}]}\<close> has an element without \<open>id\<close> and \<open>version\<close>: the call returns
  a list of one package whose fields are all \<open>undefined\<close>, not the empty list, and stores
  it under the key for \<open>CACHE_DURATION\<close>; a second identical call one millisecond later
  is answered from the cache without a request.
\<close>

theorem searchPackages_failure_not_cached_counterexample:
  "\<not> wellShaped emptyObject
   \<and> searchPackages emptyState (js ''json'') 1000 (\<lambda>q. Ok [emptyObject]) =
     ([emptyRecord],
      \<lparr>packageCache = [js ''json'' \<mapsto> [emptyRecord]], cacheExpiry = [js ''json'' \<mapsto> 301000],
       requests = [js ''json'']\<rparr>)
   \<and> searchPackages
      \<lparr>packageCache = [js ''json'' \<mapsto> [emptyRecord]], cacheExpiry = [js ''json'' \<mapsto> 301000],
       requests = [js ''json'']\<rparr> (js ''json'') 1001 (\<lambda>q. Ok [humanizer]) =
     ([emptyRecord],
      \<lparr>packageCache = [js ''json'' \<mapsto> [emptyRecord]], cacheExpiry = [js ''json'' \<mapsto> 301000],
       requests = [js ''json'']\<rparr>)"
proof -
  have shape: "\<not> wellShaped emptyObject" by (simp add: wellShaped_def emptyObject_def)
  have conv: "toPackage emptyObject = emptyRecord"
    by (simp add: toPackage_def emptyObject_def emptyRecord_def)
  have first: "searchPackages emptyState (js ''json'') 1000 (\<lambda>q. Ok [emptyObject]) =
     ([emptyRecord],
      \<lparr>packageCache = [js ''json'' \<mapsto> [emptyRecord]], cacheExpiry = [js ''json'' \<mapsto> 301000],
       requests = [js ''json'']\<rparr>)"
    by (simp add: searchPackages_def Let_def toLowerCase_json cacheLookup_emptyState conv
        CACHE_DURATION_def) (simp add: emptyState_def)
  have second: "searchPackages
      \<lparr>packageCache = [js ''json'' \<mapsto> [emptyRecord]], cacheExpiry = [js ''json'' \<mapsto> 301000],
       requests = [js ''json'']\<rparr> (js ''json'') 1001 (\<lambda>q. Ok [humanizer]) =
     ([emptyRecord],
      \<lparr>packageCache = [js ''json'' \<mapsto> [emptyRecord]], cacheExpiry = [js ''json'' \<mapsto> 301000],
       requests = [js ''json'']\<rparr>)"
    by (simp add: searchPackages_def Let_def toLowerCase_json cacheLookup_def)
  from shape first second show ?thesis by simp
qed

subsection \<open>Lowercased keys\<close>

lemma lowerFrom_no_sigma:
  "931 \<notin> set q \<Longrightarrow> lowerFrom passed q = concat (map lowerUnit q)"
  by (induction q arbitrary: passed) auto

lemma toLowerCase_no_sigma: "931 \<notin> set q \<Longrightarrow> toLowerCase q = concat (map lowerUnit q)"
  by (simp add: toLowerCase_def lowerFrom_no_sigma)

lemma lowerUnit_variant:
  "caseVariantUnit c d \<Longrightarrow> c \<noteq> 931 \<Longrightarrow> d \<noteq> 931 \<Longrightarrow> lowerUnit c = lowerUnit d"
  unfolding caseVariantUnit_def isUpper_def lowerUnit_def by auto

lemma toLowerCase_variant:
  assumes "differOnlyInCase a b" "931 \<notin> set a" "931 \<notin> set b"
  shows "toLowerCase a = toLowerCase b"
proof -
  have "list_all2 caseVariantUnit a b" using assms(1) by (simp add: differOnlyInCase_def)
  then have "concat (map lowerUnit a) = concat (map lowerUnit b)"
    using assms(2,3)
    by (induction a b rule: list_all2_induct) (auto dest: lowerUnit_variant)
  then show ?thesis using assms(2,3) by (simp add: toLowerCase_no_sigma)
qed

lemma toLowerCase_latin:
  assumes "\<forall>u \<in> set q. u < 256"
  shows "toLowerCase q = map (\<lambda>u. if isUpper u then u + 32 else u) q"
proof -
  have "931 \<notin> set q" using assms by auto
  then have "toLowerCase q = concat (map lowerUnit q)" by (rule toLowerCase_no_sigma)
  also have "\<dots> = map (\<lambda>u. if isUpper u then u + 32 else u) q"
    using assms by (induction q) (auto simp: lowerUnit_def isUpper_def)
  finally show ?thesis .
qed

lemma js_ABC: "js ''ABC'' = [65, 66, 67]" and js_abc: "js ''abc'' = [97, 98, 99]"
  by (simp_all add: js_def code_def)

lemma differOnlyInCase_ABC: "differOnlyInCase (js ''ABC'') (js ''abc'')"
  by (simp add: js_ABC js_abc differOnlyInCase_def caseVariantUnit_def isUpper_def)

text \<open>
  Claim C6, as amended. Two queries of ASCII and Latin-1 characters (code units below 256)
  that differ only in letter case have the same cache key, and the key is the query with
  every capital letter replaced by its small letter. Both observe the same entry: a valid
  entry under that key is returned for either spelling without a request. Both update the
  same entry: what a fetch for the first spelling stored, under that key, is returned to
  the second spelling within the validity window.
\<close>

theorem searchPackages_case_insensitive_key:
  assumes "differOnlyInCase q1 q2" and "\<forall>u \<in> set q1. u < 256" and "\<forall>u \<in> set q2. u < 256"
  shows "toLowerCase q1 = map (\<lambda>u. if isUpper u then u + 32 else u) q1
       \<and> toLowerCase q2 = toLowerCase q1
       \<and> (\<forall>s now net net' P. cacheLookup s (toLowerCase q1) now = Some P \<longrightarrow>
            searchPackages s q1 now net = (P, s) \<and> searchPackages s q2 now net' = (P, s))
       \<and> (\<forall>s now net items. cacheLookup s (toLowerCase q1) now = None \<and> net q1 = Ok items \<longrightarrow>
            packageCache (snd (searchPackages s q1 now net)) (toLowerCase q1) = Some (map toPackage items)
          \<and> (\<forall>now2 net2. now2 < now + CACHE_DURATION \<longrightarrow>
               searchPackages (snd (searchPackages s q1 now net)) q2 now2 net2 =
                 (map toPackage items, snd (searchPackages s q1 now net))))"
proof -
  have nosigma: "931 \<notin> set q1" "931 \<notin> set q2" using assms(2,3) by auto
  have key: "toLowerCase q1 = toLowerCase q2"
    using assms(1) nosigma by (rule toLowerCase_variant)
  have latin: "toLowerCase q1 = map (\<lambda>u. if isUpper u then u + 32 else u) q1"
    using assms(2) by (rule toLowerCase_latin)
  have observe: "searchPackages s q1 now net = (P, s) \<and> searchPackages s q2 now net' = (P, s)"
    if "cacheLookup s (toLowerCase q1) now = Some P" for s now net net' P
    using that searchPackages_hit [of s q1 now P net] searchPackages_hit [of s q2 now P net']
    by (simp add: key)
  have stored: "packageCache (snd (searchPackages s q1 now net)) (toLowerCase q1) = Some (map toPackage items)"
    if "cacheLookup s (toLowerCase q1) now = None" "net q1 = Ok items"
    for s now net items
    using searchPackages_miss_ok [of s q1 now net items] that by simp
  have update: "searchPackages (snd (searchPackages s q1 now net)) q2 now2 net2 =
                 (map toPackage items, snd (searchPackages s q1 now net))"
    if "cacheLookup s (toLowerCase q1) now = None" "net q1 = Ok items" "now2 < now + CACHE_DURATION"
    for s now net items now2 net2
  proof -
    have "cacheLookup (snd (searchPackages s q1 now net)) (toLowerCase q2) now2 = Some (map toPackage items)"
      using searchPackages_miss_ok [of s q1 now net items] that
      by (simp add: key [symmetric] cacheLookup_after_store)
    then show ?thesis by (rule searchPackages_hit)
  qed
  show ?thesis
  proof (intro conjI allI impI)
    show "toLowerCase q1 = map (\<lambda>u. if isUpper u then u + 32 else u) q1" by (fact latin)
    show "toLowerCase q2 = toLowerCase q1" by (simp add: key)
  qed (use observe stored update in simp_all)
qed

theorem searchPackages_case_insensitive_key_witness:
  "differOnlyInCase (js ''ABC'') (js ''abc'')
   \<and> toLowerCase (js ''ABC'') = js ''abc'' \<and> toLowerCase (js ''abc'') = js ''abc''
   \<and> searchPackages (snd (searchPackages emptyState (js ''ABC'') 1000 (\<lambda>q. Ok [humanizer])))
        (js ''abc'') 2000 (\<lambda>q. Timeout) =
       ([humanizerPackage], snd (searchPackages emptyState (js ''ABC'') 1000 (\<lambda>q. Ok [humanizer])))"
proof -
  have latin: "\<forall>u \<in> set (js ''ABC''). u < 256" "\<forall>u \<in> set (js ''abc''). u < 256"
    by (simp_all add: js_ABC js_abc)
  from searchPackages_case_insensitive_key [OF differOnlyInCase_ABC latin]
  have pin: "toLowerCase (js ''ABC'') = map (\<lambda>u. if isUpper u then u + 32 else u) (js ''ABC'')"
    and key: "toLowerCase (js ''abc'') = toLowerCase (js ''ABC'')"
    and upd: "\<And>s now net items now2 net2.
       cacheLookup s (toLowerCase (js ''ABC'')) now = None \<Longrightarrow> net (js ''ABC'') = Ok items \<Longrightarrow>
       now2 < now + CACHE_DURATION \<Longrightarrow>
       searchPackages (snd (searchPackages s (js ''ABC'') now net)) (js ''abc'') now2 net2 =
                 (map toPackage items, snd (searchPackages s (js ''ABC'') now net))"
    by blast+
  from pin have low: "toLowerCase (js ''ABC'') = js ''abc''"
    by (simp add: js_ABC js_abc isUpper_def)
  from upd [of emptyState 1000 "\<lambda>q. Ok [humanizer]" "[humanizer]" 2000 "\<lambda>q. Timeout"]
  show ?thesis
    using differOnlyInCase_ABC key low
    by (simp add: cacheLookup_emptyState CACHE_DURATION_def toPackage_humanizer)
qed

text \<open>
  Claim C6 as stated fails where lowercasing depends on the position of a letter. The
  queries \<open>A\<Sigma>\<close> (65, 931) and \<open>a\<sigma>\<close> (97, 963) differ only in letter case, but the capital
  sigma at the end of a word becomes the final sigma (962): the keys differ, and the
  second query, asked while the entry of the first is valid, is not served from it but
  sent to the remote service.
\<close>

theorem searchPackages_case_insensitive_key_counterexample:
  "differOnlyInCase [65, 931] [97, 963]
   \<and> toLowerCase [65, 931] = [97, 962] \<and> toLowerCase [97, 963] = [97, 963]
   \<and> fst (searchPackages emptyState [65, 931] 1000 (\<lambda>q. Ok [humanizer])) = [humanizerPackage]
   \<and> searchPackages (snd (searchPackages emptyState [65, 931] 1000 (\<lambda>q. Ok [humanizer])))
        [97, 963] 2000 (\<lambda>q. Timeout) =
       ([], \<lparr>packageCache = [[97, 962] \<mapsto> [humanizerPackage]], cacheExpiry = [[97, 962] \<mapsto> 301000],
             requests = [[65, 931], [97, 963]]\<rparr>)"
proof -
  have v: "differOnlyInCase [65, 931] [97, 963]"
    by (simp add: differOnlyInCase_def caseVariantUnit_def isUpper_def)
  have k1: "toLowerCase [65, 931] = [97, 962]"
    by (simp add: toLowerCase_def lowerUnit_def besideCased_def isCaseIgnorable_def isCased_def)
  have k2: "toLowerCase [97, 963] = [97, 963]"
    by (simp add: toLowerCase_def lowerUnit_def)
  have first: "searchPackages emptyState [65, 931] 1000 (\<lambda>q. Ok [humanizer]) =
     ([humanizerPackage],
      \<lparr>packageCache = [[97, 962] \<mapsto> [humanizerPackage]], cacheExpiry = [[97, 962] \<mapsto> 301000],
       requests = [[65, 931]]\<rparr>)"
    by (simp add: searchPackages_def Let_def k1 cacheLookup_emptyState toPackage_humanizer
        CACHE_DURATION_def) (simp add: emptyState_def)
  have second: "searchPackages
      \<lparr>packageCache = [[97, 962] \<mapsto> [humanizerPackage]], cacheExpiry = [[97, 962] \<mapsto> 301000],
       requests = [[65, 931]]\<rparr> [97, 963] 2000 (\<lambda>q. Timeout) =
       ([], \<lparr>packageCache = [[97, 962] \<mapsto> [humanizerPackage]], cacheExpiry = [[97, 962] \<mapsto> 301000],
             requests = [[65, 931], [97, 963]]\<rparr>)"
    by (simp add: searchPackages_def Let_def k2 cacheLookup_def)
  show ?thesis using v k1 k2 first second by simp
qed

subsection \<open>Empty results are cached\<close>

text \<open>
  Claim C10. A fetch that succeeds with zero results stores the empty list under the
  lowercased query with the expiry \<open>now + CACHE_DURATION\<close>; an identical query strictly
  before that expiry returns the empty list from the cache and issues no request. A failed
  fetch from the same state leaves both cache maps unchanged.
\<close>

theorem searchPackages_empty_result_cached:
  assumes miss: "cacheLookup s (toLowerCase q) now = None"
    and empty: "net q = Ok []"
    and run: "searchPackages s q now net = (P, s1)"
  shows "P = [] \<and> requests s1 = requests s @ [q]
       \<and> packageCache s1 (toLowerCase q) = Some []
       \<and> cacheExpiry s1 (toLowerCase q) = Some (now + CACHE_DURATION)
       \<and> (\<forall>now2 net2. now2 < now + CACHE_DURATION \<longrightarrow> searchPackages s1 q now2 net2 = ([], s1))
       \<and> (\<forall>net'. (\<forall>items. net' q \<noteq> Ok items) \<longrightarrow>
            packageCache (snd (searchPackages s q now net')) = packageCache s
          \<and> cacheExpiry (snd (searchPackages s q now net')) = cacheExpiry s)"
proof -
  have s1: "s1 = s\<lparr>requests := requests s @ [q],
        packageCache := (packageCache s)(toLowerCase q \<mapsto> []),
        cacheExpiry := (cacheExpiry s)(toLowerCase q \<mapsto> now + CACHE_DURATION)\<rparr>"
    and P: "P = []"
    using searchPackages_miss_ok [of s q now net "[]"] miss empty run by simp_all
  have hit: "searchPackages s1 q now2 net2 = ([], s1)" if "now2 < now + CACHE_DURATION" for now2 net2
  proof -
    have "cacheLookup s1 (toLowerCase q) now2 = Some []"
      using that unfolding s1 cacheLookup_after_store by simp
    then show ?thesis by (rule searchPackages_hit)
  qed
  have fail: "packageCache (snd (searchPackages s q now net')) = packageCache s
          \<and> cacheExpiry (snd (searchPackages s q now net')) = cacheExpiry s"
    if "\<forall>items. net' q \<noteq> Ok items" for net'
    using searchPackages_miss_fail [of s q now net'] miss that by simp
  show ?thesis using P hit fail by (simp add: s1)
qed

theorem searchPackages_empty_result_cached_witness:
  "searchPackages emptyState (js ''json'') 1000 (\<lambda>q. Ok []) =
     ([], \<lparr>packageCache = [js ''json'' \<mapsto> []], cacheExpiry = [js ''json'' \<mapsto> 301000], requests = [js ''json'']\<rparr>)
   \<and> searchPackages
        \<lparr>packageCache = [js ''json'' \<mapsto> []], cacheExpiry = [js ''json'' \<mapsto> 301000], requests = [js ''json'']\<rparr>
        (js ''json'') 300999 (\<lambda>q. TransportError) =
     ([], \<lparr>packageCache = [js ''json'' \<mapsto> []], cacheExpiry = [js ''json'' \<mapsto> 301000], requests = [js ''json'']\<rparr>)"
proof -
  have low: "toLowerCase (js ''json'') = js ''json''"
    by (rule toLowerCase_json)
  have miss: "cacheLookup emptyState (toLowerCase (js ''json'')) 1000 = None"
    by (simp add: cacheLookup_def emptyState_def)
  have run: "searchPackages emptyState (js ''json'') 1000 (\<lambda>q. Ok []) =
     ([], \<lparr>packageCache = [js ''json'' \<mapsto> []], cacheExpiry = [js ''json'' \<mapsto> 301000], requests = [js ''json'']\<rparr>)"
    by (simp add: searchPackages_def Let_def low cacheLookup_def emptyState_def CACHE_DURATION_def)
  from searchPackages_empty_result_cached [of emptyState "js ''json''" 1000 "\<lambda>q. Ok []", OF miss refl run]
  have "searchPackages
        \<lparr>packageCache = [js ''json'' \<mapsto> []], cacheExpiry = [js ''json'' \<mapsto> 301000], requests = [js ''json'']\<rparr>
        (js ''json'') 300999 (\<lambda>q. TransportError) =
     ([], \<lparr>packageCache = [js ''json'' \<mapsto> []], cacheExpiry = [js ''json'' \<mapsto> 301000], requests = [js ''json'']\<rparr>)"
    by (simp add: CACHE_DURATION_def)
  with run show ?thesis by simp
qed

section \<open>Properties of the comparator\<close>

subsection \<open>Numbers\<close>

lemma toDouble_minus: "toDouble (- x) = js_neg (toDouble x)"
  by (simp add: toDouble_def Let_def)

lemma toDouble_exact: "\<bar>x\<bar> \<le> MAX_SAFE_INTEGER \<Longrightarrow> toDouble x = Fin x"
  by (simp add: toDouble_def MAX_SAFE_INTEGER_def)

lemma bitlen_lower: "0 < n \<Longrightarrow> 2 ^ (bitlen n - 1) \<le> n"
proof (induction n rule: bitlen.induct)
  case (1 n)
  show ?case
  proof (cases "n div 2 \<le> 0")
    case True
    with 1 have "n = 1" by linarith
    then show ?thesis by (simp add: bitlen.simps [of 1] bitlen.simps [of 0])
  next
    case False
    then have pos: "0 < n div 2" by simp
    with 1 have IH: "2 ^ (bitlen (n div 2) - 1) \<le> n div 2" by simp
    have "bitlen (n div 2) > 0" using pos by (simp add: bitlen.simps [of "n div 2"])
    then have "(2::int) ^ bitlen (n div 2) = 2 * 2 ^ (bitlen (n div 2) - 1)"
      by (cases "bitlen (n div 2)") simp_all
    also have "\<dots> \<le> 2 * (n div 2)" using IH by simp
    also have "\<dots> \<le> n" by simp
    finally show ?thesis using 1(2) by (simp add: bitlen.simps [of n])
  qed
qed

lemma roundMagnitude_pos: assumes "0 < n" shows "0 < roundMagnitude n"
proof -
  let ?e = "bitlen n - 53"
  have "(2::int) ^ ?e \<le> 2 ^ (bitlen n - 1)" by (rule power_increasing) simp_all
  also have "\<dots> \<le> n" using assms by (rule bitlen_lower)
  finally have "2 ^ ?e div 2 ^ ?e \<le> n div 2 ^ ?e"
    by (rule zdiv_mono1) simp
  then have "1 \<le> n div 2 ^ ?e" by simp
  then have "0 < (if n mod 2 ^ ?e > 2 ^ (?e - 1) \<or> (n mod 2 ^ ?e = 2 ^ (?e - 1) \<and> odd (n div 2 ^ ?e))
                  then n div 2 ^ ?e + 1 else n div 2 ^ ?e) * 2 ^ ?e"
    by simp
  then show ?thesis by (simp add: roundMagnitude_def Let_def)
qed

lemma jsNegative_toDouble [simp]: "jsNegative (toDouble d) = (d < 0)"
  using roundMagnitude_pos [of "\<bar>d\<bar>"]
  by (auto simp: toDouble_def Let_def)

lemma jsPositive_toDouble [simp]: "jsPositive (toDouble d) = (0 < d)"
  using roundMagnitude_pos [of "\<bar>d\<bar>"]
  by (auto simp: toDouble_def Let_def)

lemma jsPositive_neg [simp]: "jsPositive (js_neg v) = jsNegative v"
  by (cases v) simp_all

lemma jsNegative_neg [simp]: "jsNegative (js_neg v) = jsPositive v"
  by (cases v) simp_all

lemma jsPositive_not_jsNegative: "jsPositive v \<Longrightarrow> \<not> jsNegative v"
  by (cases v) simp_all

lemma js_sub_swap: "js_sub x y = js_neg (js_sub y x)"
  using toDouble_minus [of "b - a" for a b]
  by (cases x; cases y) (simp_all add: toDouble_minus [symmetric])

lemma orZero_not_NaN [simp]: "orZero v \<noteq> NaN"
  by (cases v rule: orZero.cases) simp_all

lemma js_sub_not_NaN: "x \<noteq> NaN \<Longrightarrow> y \<noteq> NaN \<Longrightarrow> x \<noteq> y \<Longrightarrow> js_sub x y \<noteq> NaN"
  by (cases x; cases y) (simp_all add: toDouble_def Let_def)

lemma js_sub_trans:
  assumes "x \<noteq> NaN" "y \<noteq> NaN" "z \<noteq> NaN" "x \<noteq> y" "y \<noteq> z"
    and "\<not> jsNegative (js_sub x y)" "\<not> jsNegative (js_sub y z)"
  shows "x \<noteq> z \<and> \<not> jsNegative (js_sub x z)"
  using assms by (cases x; cases y; cases z) auto

subsection \<open>The loop\<close>

lemma compareLoop_step:
  "compareLoop A B i =
     (if orZero (at A i) \<noteq> orZero (at B i) then js_sub (orZero (at A i)) (orZero (at B i))
      else compareLoop A B (i + 1))"
proof (cases "i < max (length A) (length B)")
  case True
  then show ?thesis by (simp add: compareLoop.simps [of A B i] Let_def)
next
  case False
  then have le: "length A \<le> i" "length B \<le> i" by simp_all
  then have "\<not> i + 1 < max (length A) (length B)" by simp
  with False le have "compareLoop A B i = Fin 0" "compareLoop A B (i + 1) = Fin 0"
    "orZero (at A i) = Fin 0" "orZero (at B i) = Fin 0"
    by (simp_all add: compareLoop.simps [of A B i] compareLoop.simps [of A B "Suc i"] at_def)
  then show ?thesis by simp
qed

lemma compareLoop_swap: "compareLoop A B i = js_neg (compareLoop B A i)"
proof (induction A B i rule: compareLoop.induct)
  case (1 A B i)
  have m: "max (length B) (length A) = max (length A) (length B)" by (rule max.commute)
  show ?case
  proof (cases "i < max (length A) (length B)")
    case False
    then show ?thesis
      by (simp add: compareLoop.simps [of A B i] compareLoop.simps [of B A i] m)
  next
    case True
    show ?thesis
    proof (cases "orZero (at A i) = orZero (at B i)")
      case same: True
      with True 1 show ?thesis
        by (simp add: compareLoop.simps [of A B i] compareLoop.simps [of B A i] m)
    next
      case diff: False
      then have diff': "orZero (at B i) \<noteq> orZero (at A i)" by simp
      from True diff diff' show ?thesis
        using js_sub_swap [of "orZero (at A i)" "orZero (at B i)"]
        by (simp add: compareLoop.simps [of A B i] compareLoop.simps [of B A i] m)
    qed
  qed
qed

lemma compareLoop_not_NaN: "compareLoop A B i \<noteq> NaN"
proof (induction A B i rule: compareLoop.induct)
  case (1 A B i)
  then show ?case
    by (simp add: compareLoop.simps [of A B i] Let_def js_sub_not_NaN)
qed

lemma compareLoop_same: "compareLoop A A i = Fin 0"
proof (induction "length A - i" arbitrary: i)
  case 0
  then show ?case by (simp add: compareLoop.simps [of A A i])
next
  case (Suc n)
  then have "compareLoop A A (i + 1) = Fin 0" by simp
  then show ?case by (simp add: compareLoop.simps [of A A i])
qed

lemma compareLoop_trans:
  "\<not> jsNegative (compareLoop A B i) \<Longrightarrow> \<not> jsNegative (compareLoop B C i) \<Longrightarrow>
   \<not> jsNegative (compareLoop A C i)"
proof (induction "max (length A) (length C) - i" arbitrary: i)
  case 0
  then have "\<not> i < max (length A) (length C)" by linarith
  then show ?case by (simp add: compareLoop.simps [of A C i])
next
  case (Suc k)
  let ?a = "orZero (at A i)" and ?b = "orZero (at B i)" and ?c = "orZero (at C i)"
  show ?case
  proof (cases "?a = ?b")
    case ab: True
    show ?thesis
    proof (cases "?b = ?c")
      case bc: True
      have "\<not> jsNegative (compareLoop A C (i + 1))"
        using Suc(1) [of "i + 1"] Suc(2,3,4) ab bc
        by (simp add: compareLoop_step [of A B i] compareLoop_step [of B C i])
      then show ?thesis using ab bc by (simp add: compareLoop_step [of A C i])
    next
      case bc: False
      then show ?thesis using Suc(4) ab
        by (simp add: compareLoop_step [of A C i] compareLoop_step [of B C i])
    qed
  next
    case ab: False
    show ?thesis
    proof (cases "?b = ?c")
      case bc: True
      then show ?thesis using Suc(3) ab
        by (simp add: compareLoop_step [of A C i] compareLoop_step [of A B i])
    next
      case bc: False
      have "?a \<noteq> ?c \<and> \<not> jsNegative (js_sub ?a ?c)"
        using Suc(3,4) ab bc
        by (intro js_sub_trans [of ?a ?b ?c])
           (simp_all add: compareLoop_step [of A B i] compareLoop_step [of B C i])
      then show ?thesis by (simp add: compareLoop_step [of A C i])
    qed
  qed
qed

lemma compareVersions_swap: "compareVersions other a b = js_neg (compareVersions other b a)"
  using compareLoop_swap [of "map (Number_js other) (split_dot a)" "map (Number_js other) (split_dot b)" 0]
  by (simp add: compareVersions_def)

lemma compareVersions_trans:
  "\<not> jsNegative (compareVersions other x y) \<Longrightarrow> \<not> jsNegative (compareVersions other y z) \<Longrightarrow>
   \<not> jsNegative (compareVersions other x z)"
  unfolding compareVersions_def Let_def by (rule compareLoop_trans)

subsection \<open>Antisymmetry\<close>

text \<open>
  Claim C5. For all strings \<open>a\<close> and \<open>b\<close>, those of dot-separated non-negative
  integers among them, \<open>compareVersions(a, b)\<close> is the negation of
  \<open>compareVersions(b, a)\<close> and is never \<open>NaN\<close>, so the two sides are equal under
  \<open>==\<close>; and \<open>compareVersions(a, a)\<close> is 0.
\<close>

theorem compareVersions_antisymmetric:
  "compareVersions other a b = js_neg (compareVersions other b a)
   \<and> compareVersions other a b \<noteq> NaN
   \<and> compareVersions other a a = Fin 0"
  using compareLoop_swap [of "map (Number_js other) (split_dot a)" "map (Number_js other) (split_dot b)" 0]
    compareLoop_not_NaN [of "map (Number_js other) (split_dot a)" "map (Number_js other) (split_dot b)" 0]
  by (simp add: compareVersions_def compareLoop_same)

subsection \<open>Agreement with the reference comparison\<close>

lemma decimal_foldl_nonneg:
  "0 \<le> acc \<Longrightarrow> list_all isDigit s \<Longrightarrow> 0 \<le> foldl (\<lambda>acc c. 10 * acc + (int (code c) - 48)) acc s"
  by (induction s arbitrary: acc) (auto simp: isDigit_def)

lemma decimal_nonneg: "list_all isDigit s \<Longrightarrow> 0 \<le> decimal s"
  unfolding decimal_def by (rule decimal_foldl_nonneg) simp_all

lemma Number_js_digits:
  "seg \<noteq> [] \<Longrightarrow> list_all isDigit seg \<Longrightarrow> decimal seg \<le> MAX_SAFE_INTEGER \<Longrightarrow>
   Number_js other seg = Fin (decimal seg)"
  using decimal_nonneg [of seg] by (simp add: Number_js_def toDouble_exact)

lemma parts_of_dotted:
  assumes "isDottedIntegers v" "\<forall>n \<in> set (segments v). n \<le> MAX_SAFE_INTEGER"
  shows "map (Number_js other) (split_dot v) = map Fin (segments v)"
  using assms unfolding isDottedIntegers_def segments_def
  by (induction "split_dot v") (auto simp: Number_js_digits list_all_iff)

lemma segments_nonneg: "isDottedIntegers v \<Longrightarrow> \<forall>n \<in> set (segments v). 0 \<le> n"
  unfolding isDottedIntegers_def segments_def
  by (auto simp: list_all_iff decimal_nonneg)

lemma orZero_at_Fin:
  "i < n \<Longrightarrow> length xs \<le> n \<Longrightarrow> orZero (at (map Fin xs) i) = Fin (padZeros n xs ! i)"
  by (auto simp: at_def padZeros_def nth_append)

lemma padZeros_bounds:
  "\<forall>x \<in> set xs. 0 \<le> x \<and> x \<le> m \<Longrightarrow> 0 \<le> m \<Longrightarrow> i < n \<Longrightarrow> length xs \<le> n \<Longrightarrow>
   0 \<le> padZeros n xs ! i \<and> padZeros n xs ! i \<le> m"
  by (auto simp: padZeros_def nth_append)

lemma length_padZeros: "length xs \<le> n \<Longrightarrow> length (padZeros n xs) = n"
  by (simp add: padZeros_def)

lemma compareLoop_reference:
  assumes xs: "\<forall>x \<in> set xs. 0 \<le> x \<and> x \<le> MAX_SAFE_INTEGER"
    and ys: "\<forall>y \<in> set ys. 0 \<le> y \<and> y \<le> MAX_SAFE_INTEGER"
    and n: "n = max (length xs) (length ys)"
  shows "jsSign (compareLoop (map Fin xs) (map Fin ys) i) =
         firstUnequal (zip (drop i (padZeros n xs)) (drop i (padZeros n ys)))"
proof (induction "n - i" arbitrary: i)
  case 0
  then have "\<not> i < max (length xs) (length ys)" using n by linarith
  moreover have "drop i (padZeros n xs) = []" using 0 n by (simp add: length_padZeros)
  ultimately show ?case
    by (simp add: compareLoop.simps [of "map Fin xs" "map Fin ys" i])
next
  case (Suc k)
  then have i: "i < n" by simp
  have lx: "length xs \<le> n" and ly: "length ys \<le> n" using n by simp_all
  let ?x = "padZeros n xs ! i" and ?y = "padZeros n ys ! i"
  have m: "(0::int) \<le> MAX_SAFE_INTEGER" by (simp add: MAX_SAFE_INTEGER_def)
  have bx: "0 \<le> ?x \<and> ?x \<le> MAX_SAFE_INTEGER" using padZeros_bounds [OF xs m i lx] .
  have by': "0 \<le> ?y \<and> ?y \<le> MAX_SAFE_INTEGER" using padZeros_bounds [OF ys m i ly] .
  have dx: "drop i (padZeros n xs) = ?x # drop (Suc i) (padZeros n xs)"
    using i lx by (simp add: Cons_nth_drop_Suc length_padZeros)
  have dy: "drop i (padZeros n ys) = ?y # drop (Suc i) (padZeros n ys)"
    using i ly by (simp add: Cons_nth_drop_Suc length_padZeros)
  have IH: "jsSign (compareLoop (map Fin xs) (map Fin ys) (Suc i)) =
         firstUnequal (zip (drop (Suc i) (padZeros n xs)) (drop (Suc i) (padZeros n ys)))"
    using Suc by simp
  have exact: "toDouble (?x - ?y) = Fin (?x - ?y)"
    using bx by' by (intro toDouble_exact) linarith
  have cond: "i < max (length (map Fin xs)) (length (map Fin ys))" using i n by simp
  have step: "compareLoop (map Fin xs) (map Fin ys) i =
      (if Fin ?x \<noteq> Fin ?y then js_sub (Fin ?x) (Fin ?y)
       else compareLoop (map Fin xs) (map Fin ys) (Suc i))"
    using cond
    by (simp add: compareLoop.simps [of "map Fin xs" "map Fin ys" i] Let_def
        orZero_at_Fin [OF i lx] orZero_at_Fin [OF i ly])
  show ?case unfolding step dx dy using IH exact by simp
qed

lemma compareVersions_2_1: "compareVersions other ''2.1'' ''2.1.0'' = Fin 0"
  by (simp add: compareVersions_def Number_js_def isDigit_def code_def decimal_def toDouble_def
      compareLoop.simps at_def)

lemma compareVersions_1_2_3: "compareVersions other ''1.2.3'' ''1.10.0'' = Fin (- 8)"
  by (simp add: compareVersions_def Number_js_def isDigit_def code_def decimal_def toDouble_def
      compareLoop.simps at_def)

lemma bitlen_2_53_plus_1: "bitlen 9007199254740993 = 54"
  by (simp add: bitlen.simps)

lemma bitlen_2_53: "bitlen 9007199254740992 = 54"
  by (simp add: bitlen.simps)

lemma compareVersions_unsafe: "compareVersions other ''9007199254740993'' ''9007199254740992'' = Fin 0"
  by (simp add: compareVersions_def Number_js_def isDigit_def code_def decimal_def toDouble_def
      compareLoop.simps at_def roundMagnitude_def bitlen_2_53_plus_1 bitlen_2_53)

lemma referenceCompare_unsafe: "referenceCompare (segments ''9007199254740993'') (segments ''9007199254740992'') = 1"
  by (simp add: referenceCompare_def segments_def decimal_def code_def padZeros_def)

text \<open>
  Claim C4, as amended. For two strings of dot-separated non-negative integers whose
  segments are at most \<open>MAX_SAFE_INTEGER = 2 ^ 53 - 1\<close>, the sign of the comparator's
  result is the reference comparison of their segments: segment by segment from the most
  significant, an absent segment counting as 0, the first unequal pair deciding.
\<close>

theorem compareVersions_reference:
  assumes "isDottedIntegers a" and "isDottedIntegers b"
    and "\<forall>n \<in> set (segments a) \<union> set (segments b). n \<le> MAX_SAFE_INTEGER"
  shows "jsSign (compareVersions other a b) = referenceCompare (segments a) (segments b)"
proof -
  have pa: "map (Number_js other) (split_dot a) = map Fin (segments a)"
    using assms by (intro parts_of_dotted) auto
  have pb: "map (Number_js other) (split_dot b) = map Fin (segments b)"
    using assms by (intro parts_of_dotted) auto
  have xs: "\<forall>x \<in> set (segments a). 0 \<le> x \<and> x \<le> MAX_SAFE_INTEGER"
    using assms segments_nonneg [of a] by auto
  have ys: "\<forall>x \<in> set (segments b). 0 \<le> x \<and> x \<le> MAX_SAFE_INTEGER"
    using assms segments_nonneg [of b] by auto
  show ?thesis
    using compareLoop_reference [OF xs ys refl, of 0]
    by (simp add: compareVersions_def pa pb referenceCompare_def Let_def)
qed

theorem compareVersions_reference_witness:
  "jsSign (compareVersions (\<lambda>s. NaN) ''2.1'' ''2.1.0'') = 0
   \<and> jsSign (compareVersions (\<lambda>s. NaN) ''1.2.3'' ''1.10.0'') = - 1"
proof -
  have dotted: "isDottedIntegers ''2.1''" "isDottedIntegers ''2.1.0''"
    "isDottedIntegers ''1.2.3''" "isDottedIntegers ''1.10.0''"
    by (simp_all add: isDottedIntegers_def isDigit_def code_def)
  have segs: "segments ''2.1'' = [2, 1]" "segments ''2.1.0'' = [2, 1, 0]"
    "segments ''1.2.3'' = [1, 2, 3]" "segments ''1.10.0'' = [1, 10, 0]"
    by (simp_all add: segments_def decimal_def code_def)
  have safe1: "\<forall>n \<in> set (segments ''2.1'') \<union> set (segments ''2.1.0''). n \<le> MAX_SAFE_INTEGER"
    and safe2: "\<forall>n \<in> set (segments ''1.2.3'') \<union> set (segments ''1.10.0''). n \<le> MAX_SAFE_INTEGER"
    by (simp_all add: segs MAX_SAFE_INTEGER_def)
  have "jsSign (compareVersions (\<lambda>s. NaN) ''2.1'' ''2.1.0'') = referenceCompare [2, 1] [2, 1, 0]"
    using compareVersions_reference [OF dotted(1) dotted(2) safe1] by (simp add: segs)
  moreover
  have "jsSign (compareVersions (\<lambda>s. NaN) ''1.2.3'' ''1.10.0'') = referenceCompare [1, 2, 3] [1, 10, 0]"
    using compareVersions_reference [OF dotted(3) dotted(4) safe2] by (simp add: segs)
  ultimately show ?thesis by (simp add: referenceCompare_def padZeros_def)
qed

text \<open>
  Claim C4 as stated fails beyond the integers a double holds exactly: \<open>2 ^ 53 + 1\<close>
  converts to \<open>2 ^ 53\<close>, so two versions whose only segments differ compare as equal.
\<close>

theorem compareVersions_reference_counterexample:
  "isDottedIntegers ''9007199254740993'' \<and> isDottedIntegers ''9007199254740992''
   \<and> compareVersions (\<lambda>s. NaN) ''9007199254740993'' ''9007199254740992'' = Fin 0
   \<and> referenceCompare (segments ''9007199254740993'') (segments ''9007199254740992'') = 1"
  using compareVersions_unsafe [of "\<lambda>s. NaN"] referenceCompare_unsafe
  by (simp add: isDottedIntegers_def isDigit_def code_def)

section \<open>Properties of the version pipeline\<close>

lemma mset_insertSorted: "mset (insertSorted c x ys) = add_mset x (mset ys)"
  by (induction ys) simp_all

lemma mset_js_sort: "mset (js_sort c xs) = mset xs"
  unfolding js_sort_def by (induction xs) (simp_all add: mset_insertSorted)

lemma set_insertSorted: "set (insertSorted c x ys) = insert x (set ys)"
  using mset_insertSorted [of c x ys] by (metis set_mset_add_mset_insert set_mset_mset)

lemma sorted_insertSorted:
  assumes asym: "\<And>x y. jsPositive (c x y) \<Longrightarrow> \<not> jsPositive (c y x)"
    and trans: "\<And>x y z. \<not> jsPositive (c x y) \<Longrightarrow> \<not> jsPositive (c y z) \<Longrightarrow> \<not> jsPositive (c x z)"
  shows "sorted_wrt (\<lambda>x y. \<not> jsPositive (c x y)) ys \<Longrightarrow>
         sorted_wrt (\<lambda>x y. \<not> jsPositive (c x y)) (insertSorted c x ys)"
proof (induction ys)
  case Nil
  then show ?case by simp
next
  case (Cons y ys)
  show ?case
  proof (cases "jsPositive (c x y)")
    case True
    then have "\<not> jsPositive (c y x)" by (rule asym)
    with True Cons show ?thesis by (auto simp: set_insertSorted)
  next
    case False
    then have "\<forall>z \<in> set ys. \<not> jsPositive (c x z)"
      using Cons.prems trans by auto
    with False Cons.prems show ?thesis by simp
  qed
qed

lemma sorted_js_sort:
  assumes asym: "\<And>x y. jsPositive (c x y) \<Longrightarrow> \<not> jsPositive (c y x)"
    and trans: "\<And>x y z. \<not> jsPositive (c x y) \<Longrightarrow> \<not> jsPositive (c y z) \<Longrightarrow> \<not> jsPositive (c x z)"
  shows "sorted_wrt (\<lambda>x y. \<not> jsPositive (c x y)) (js_sort c xs)"
  unfolding js_sort_def
  by (induction xs) (simp_all add: sorted_insertSorted [OF asym trans])

lemma sorted_descending:
  "sorted_wrt (\<lambda>x y. \<not> jsNegative (compareVersions other x y))
     (js_sort (\<lambda>a b. compareVersions other b a) xs)"
proof -
  have pos: "jsPositive (compareVersions other b a) = jsNegative (compareVersions other a b)" for a b
    using compareVersions_swap [of other b a] by simp
  have "sorted_wrt (\<lambda>x y. \<not> jsPositive (compareVersions other y x))
     (js_sort (\<lambda>a b. compareVersions other b a) xs)"
  proof (rule sorted_js_sort)
    fix x y assume "jsPositive (compareVersions other y x)"
    then show "\<not> jsPositive (compareVersions other x y)"
      using compareVersions_swap [of other x y] by (simp add: jsPositive_not_jsNegative)
  next
    fix x y z
    assume "\<not> jsPositive (compareVersions other y x)" "\<not> jsPositive (compareVersions other z y)"
    then show "\<not> jsPositive (compareVersions other z x)"
      unfolding pos by (rule compareVersions_trans)
  qed
  then show ?thesis by (simp add: pos)
qed

lemma startsWith_take: "startsWith s p = (take (length p) s = p)"
  by (induction s p rule: startsWith.induct) auto

lemma includes_char: "includes_str s [c] = (c \<in> set s)"
  by (induction s) auto

lemma filteredVersions_example:
  "filteredVersions other [''1.0.0'', ''1.0.0-beta'', ''1.1.0'', ''2.0.0''] ''1'' = [''1.1.0'', ''1.0.0'']"
  by (simp add: filteredVersions_def js_sort_def compareVersions_def Number_js_def isDigit_def
      code_def decimal_def toDouble_def compareLoop.simps at_def)

text \<open>
  Claim C3. For every version list and prefix, the pipeline's result is the first 10
  elements of a list that is a rearrangement of exactly the versions with no hyphen that
  start with the prefix, and in which no element compares below a later one (descending
  by \<open>compareVersions\<close>). It has at most 10 elements. On
  \<open>["1.0.0", "1.0.0-beta", "1.1.0", "2.0.0"]\<close> with prefix \<open>"1"\<close> it is
  \<open>["1.1.0", "1.0.0"]\<close>.
\<close>

theorem filteredVersions_sorted_top10:
  "(\<exists>sorted.
       mset sorted =
         mset (filter (\<lambda>v. CHR ''-'' \<notin> set v \<and> take (length versionPrefix) v = versionPrefix) versions)
     \<and> sorted_wrt (\<lambda>x y. \<not> jsNegative (compareVersions other x y)) sorted
     \<and> filteredVersions other versions versionPrefix = take 10 sorted)
   \<and> length (filteredVersions other versions versionPrefix) \<le> 10
   \<and> filteredVersions other [''1.0.0'', ''1.0.0-beta'', ''1.1.0'', ''2.0.0''] ''1'' = [''1.1.0'', ''1.0.0'']"
proof -
  let ?kept = "filter (\<lambda>v. CHR ''-'' \<notin> set v \<and> take (length versionPrefix) v = versionPrefix) versions"
  let ?sorted = "js_sort (\<lambda>a b. compareVersions other b a) ?kept"
  have fv: "filteredVersions other versions versionPrefix = take 10 ?sorted"
    by (simp add: filteredVersions_def includes_char startsWith_take)
  have "mset ?sorted = mset ?kept" by (rule mset_js_sort)
  moreover have "sorted_wrt (\<lambda>x y. \<not> jsNegative (compareVersions other x y)) ?sorted"
    by (rule sorted_descending)
  ultimately have "\<exists>sorted.
       mset sorted = mset ?kept
     \<and> sorted_wrt (\<lambda>x y. \<not> jsNegative (compareVersions other x y)) sorted
     \<and> filteredVersions other versions versionPrefix = take 10 sorted"
    using fv by blast
  moreover have "length (filteredVersions other versions versionPrefix) \<le> 10"
    by (simp add: filteredVersions_def)
  ultimately show ?thesis using filteredVersions_example by simp
qed

section \<open>Properties of the completion items\<close>

lemma lessString_snoc:
  "length s = length t \<Longrightarrow>
   lessString (s @ [c]) (t @ [d]) = (lessString s t \<or> (s = t \<and> code c < code d))"
  by (induction s t rule: list_induct2) auto

lemma length_fixedDigits [simp]: "length (fixedDigits k n) = k"
  by (induction k arbitrary: n) simp_all

lemma digitChar_0: "digitChar 0 = CHR ''0''"
  by (simp add: digitChar_def char_of_eq)

lemma fixedDigits_zero: "fixedDigits k 0 = replicate k (CHR ''0'')"
  by (induction k) (simp_all add: digitChar_0 replicate_append_same)

lemma length_digits: "0 \<le> n \<Longrightarrow> n < 10 ^ Suc k \<Longrightarrow> length (digits n) \<le> Suc k"
proof (induction k arbitrary: n)
  case 0
  then show ?case by (simp add: digits.simps [of n])
next
  case (Suc k)
  show ?case
  proof (cases "n < 10")
    case True
    then show ?thesis by (simp add: digits.simps [of n])
  next
    case False
    have "n div 10 < 10 ^ Suc k" using Suc.prems by simp
    moreover have "0 \<le> n div 10" using Suc.prems by simp
    ultimately have "length (digits (n div 10)) \<le> Suc k" by (rule Suc.IH [rotated])
    with False show ?thesis by (simp add: digits.simps [of n])
  qed
qed

lemma padStart_digits:
  "0 \<le> n \<Longrightarrow> n < 10 ^ Suc k \<Longrightarrow> padStart (digits n) (Suc k) (CHR ''0'') = fixedDigits (Suc k) n"
proof (induction k arbitrary: n)
  case 0
  then show ?case by (simp add: digits.simps [of n] padStart_def)
next
  case (Suc k)
  show ?case
  proof (cases "n < 10")
    case True
    with Suc.prems have "n div 10 = 0" "n mod 10 = n" by simp_all
    with True show ?thesis
      by (simp add: digits.simps [of n] padStart_def fixedDigits_zero replicate_append_same)
  next
    case False
    have b: "n div 10 < 10 ^ Suc k" "0 \<le> n div 10" using Suc.prems by simp_all
    have len: "length (digits (n div 10)) \<le> Suc k" using b by (intro length_digits)
    have "padStart (digits (n div 10)) (Suc k) (CHR ''0'') = fixedDigits (Suc k) (n div 10)"
      using b by (intro Suc.IH)
    with False len show ?thesis
      by (simp add: digits.simps [of n] padStart_def Suc_diff_le)
  qed
qed

lemma code_digitChar: "0 \<le> d \<Longrightarrow> d < 10 \<Longrightarrow> code (digitChar d) = nat (48 + d)"
  by (simp add: digitChar_def code_def)

lemma fixedDigits_less:
  "0 \<le> m \<Longrightarrow> 0 \<le> n \<Longrightarrow>
   (lessString (fixedDigits k m) (fixedDigits k n) = (m mod 10 ^ k < n mod 10 ^ k))
   \<and> ((fixedDigits k m = fixedDigits k n) = (m mod 10 ^ k = n mod 10 ^ k))"
proof (induction k arbitrary: m n)
  case 0
  then show ?case by simp
next
  case (Suc k)
  have IH: "lessString (fixedDigits k (m div 10)) (fixedDigits k (n div 10))
              = ((m div 10) mod 10 ^ k < (n div 10) mod 10 ^ k)"
    "(fixedDigits k (m div 10) = fixedDigits k (n div 10))
              = ((m div 10) mod 10 ^ k = (n div 10) mod 10 ^ k)"
    using Suc.IH [of "m div 10" "n div 10"] Suc.prems by simp_all
  have dm: "m mod (10 * 10 ^ k) = 10 * ((m div 10) mod 10 ^ k) + m mod 10" for m :: int
    using zmod_zmult2_eq [of "10 ^ k" m 10] by simp
  have cd: "(code (digitChar (m mod 10)) < code (digitChar (n mod 10))) = (m mod 10 < n mod 10)"
    "(digitChar (m mod 10) = digitChar (n mod 10)) = (m mod 10 = n mod 10)"
    using code_digitChar [of "m mod 10"] code_digitChar [of "n mod 10"]
    by (auto dest: arg_cong [where f = code])
  have lex: "(A < B \<or> A = B \<and> a < b) = (10 * A + a < 10 * B + b)"
    "(A = B \<and> a = b) = (10 * A + a = 10 * B + b)"
    if "0 \<le> a" "a < 10" "0 \<le> b" "b < 10" for A B a b :: int
    using that by presburger+
  have r: "0 \<le> m mod 10" "m mod 10 < 10" "0 \<le> n mod 10" "n mod 10 < 10" by simp_all
  show ?case
    unfolding fixedDigits.simps
    by (simp add: lessString_snoc IH cd dm [of m] dm [of n] lex [OF r])
qed

lemma sortKey_order:
  assumes "0 \<le> m" "m < n" "n < 10 ^ 10"
  shows "lessString (padStart (digits m) 10 (CHR ''0'')) (padStart (digits n) 10 (CHR ''0''))"
proof -
  have "padStart (digits m) (Suc 9) (CHR ''0'') = fixedDigits (Suc 9) m"
    using assms by (intro padStart_digits) simp_all
  moreover have "padStart (digits n) (Suc 9) (CHR ''0'') = fixedDigits (Suc 9) n"
    using assms by (intro padStart_digits) simp_all
  moreover have "lessString (fixedDigits 10 m) (fixedDigits 10 n)"
    using fixedDigits_less [of m n 10] assms by simp
  ultimately show ?thesis by simp
qed

text \<open>
  Up to 999999999 downloads the sort keys do order by popularity: of two counts from 1 to
  999999999 the greater has the smaller key.
\<close>

lemma sortText_order_below_limit:
  assumes "0 < d1" "d1 < d2" "d2 \<le> 999999999"
  shows "lessString (sortText (createPackageCompletionItem (pkg2\<lparr>totalDownloads := Some d2\<rparr>)))
                    (sortText (createPackageCompletionItem (pkg1\<lparr>totalDownloads := Some d1\<rparr>)))"
  using assms sortKey_order [of "999999999 - d2" "999999999 - d1"]
  by (simp add: createPackageCompletionItem_def toDouble_def stringPositive_def)

lemma getPackageCompletions_items:
  "query \<noteq> [] \<Longrightarrow>
   map insertText (fst (getPackageCompletions s query now net)) =
     map (\<lambda>pkg. templateText (id pkg) @ ''@'' @ templateText (version pkg))
       (fst (searchPackages s query now net))"
  by (simp add: getPackageCompletions_def createPackageCompletionItem_def split: prod.splits)

lemma getVersionCompletions_labels:
  "net (toLowerCase (js packageId)) = VersionsBody (Some versions) \<Longrightarrow>
   map label (getVersionCompletions other net packageId versionPrefix) =
     map Some (filteredVersions other versions versionPrefix)"
  by (simp add: getVersionCompletions_def comp_def)

text \<open>
  Beyond \<open>2 ^ 53\<close> the difference is rounded and printed with the digits that tell the
  double from its neighbours, in exponent form from \<open>10 ^ 21\<close> on.
\<close>

lemma String_js_rounded:
  "String_js (js_sub (Fin 999999999) (Fin (2 ^ 63))) = ''-9223372035854776000''"
  by code_simp

lemma String_js_exponent: "String_js (toDouble (10 ^ 21)) = ''1e+21''"
  by code_simp

text \<open>
  Claim C8, at the failing input. The insert text of an item is the package id, \<open>@\<close>
  and the version, each as the template literal reads it (\<open>Humanizer@2.14.1\<close> in the
  scenario, whose sort key is \<open>0499999999\<close>). For the download counts 2000000000 and
  5000000000 the sort keys are \<open>-1000000001\<close> and \<open>-4000000001\<close>, and the first is
  the smaller string: the package with fewer downloads ranks above the one with more.
\<close>

theorem createPackageCompletionItem_sortText_inversion:
  "insertText (createPackageCompletionItem pkg) = templateText (id pkg) @ ''@'' @ templateText (version pkg)
   \<and> insertText (createPackageCompletionItem humanizerPackage) = ''Humanizer@2.14.1''
   \<and> sortText (createPackageCompletionItem humanizerPackage) = ''0499999999''
   \<and> sortText (createPackageCompletionItem (popularPackage 2000000000)) = ''-1000000001''
   \<and> sortText (createPackageCompletionItem (popularPackage 5000000000)) = ''-4000000001''
   \<and> lessString ''-1000000001'' ''-4000000001''"
  by (simp add: createPackageCompletionItem_def humanizerPackage_def popularPackage_def
      templateText_def toDouble_def stringPositive_def padStart_def digits.simps digitChar_def
      char_of_eq code_def)

section \<open>Properties of the completion resolvers\<close>

lemma dottedName_nonempty: "dottedName s = Some (name, rest) \<Longrightarrow> name \<noteq> []"
  by (subst (asm) dottedName.simps) (auto split: if_splits list.splits option.splits)

lemma packageVersionMatch_nonempty:
  "packageVersionMatch s = Some (packageId, versionPrefix) \<Longrightarrow> packageId \<noteq> []"
  by (auto simp: packageVersionMatch_def dest: dottedName_nonempty
      split: option.splits list.splits if_splits)

lemma packageMatch_empty_no_version:
  assumes "packageMatch s = Some []"
  shows "packageVersionMatch s = None"
proof -
  from assms obtain rest where rest: "afterPackage s = Some rest"
    and tw: "takeWhile (\<lambda>c. c \<noteq> CHR ''@'' \<and> \<not> isSpace c) rest = []"
    by (auto simp: packageMatch_def split: option.splits)
  have "takeWhile isWordChar rest = []"
  proof (cases rest)
    case Nil
    then show ?thesis by simp
  next
    case (Cons c cs)
    with tw have "c = CHR ''@'' \<or> isSpace c" by (auto split: if_splits)
    then have "\<not> isWordChar c" by (auto simp: isWordChar_def isSpace_def code_def)
    with Cons show ?thesis by simp
  qed
  then have "dottedName rest = None" by (simp add: dottedName.simps [of rest])
  with rest show ?thesis by (simp add: packageVersionMatch_def)
qed

lemma line_package_space: "substring ''#:package '' 0 10 = ''#:package ''"
  by (simp add: substring_def)

lemma packageMatch_package_space: "packageMatch ''#:package '' = Some []"
  by (simp add: packageMatch_def afterPackage_def isSpace_def code_def)

text \<open>
  \<open>DirectiveCompletionProvider\<close> never passes an empty query to \<open>searchPackages\<close> or an
  empty package id to the version fetch, and an empty package-name prefix makes no client
  call at all. \<open>PackageCompletionProvider\<close> never fetches versions for an empty id, but
  an empty prefix goes to \<open>searchPackages\<close> as it is.
\<close>

lemma completion_calls_query_nonempty:
  "SearchPackages [] \<notin> set (DirectiveCompletionProvider_calls text character)
   \<and> FetchVersions [] \<notin> set (DirectiveCompletionProvider_calls text character)
   \<and> (packageMatch (substring text 0 character) = Some [] \<longrightarrow>
        DirectiveCompletionProvider_calls text character = [])
   \<and> FetchVersions [] \<notin> set (PackageCompletionProvider_calls text character)
   \<and> (packageMatch (substring text 0 character) = Some [] \<longrightarrow>
        PackageCompletionProvider_calls text character = [SearchPackages []])"
proof -
  let ?p = "substring text 0 character"
  have v: "packageId \<noteq> []" if "packageVersionMatch ?p = Some (packageId, versionPrefix)"
    for packageId versionPrefix
    using that by (rule packageVersionMatch_nonempty)
  have d1: "SearchPackages [] \<notin> set (DirectiveCompletionProvider_calls text character)"
    by (auto simp: DirectiveCompletionProvider_calls_def Let_def getPackageCompletions_calls_def
        getVersionCompletions_calls_def split: option.splits)
  have d2: "FetchVersions [] \<notin> set (DirectiveCompletionProvider_calls text character)"
    using v
    by (auto simp: DirectiveCompletionProvider_calls_def Let_def getPackageCompletions_calls_def
        getVersionCompletions_calls_def split: option.splits)
  have d3: "DirectiveCompletionProvider_calls text character = []"
    if "packageMatch ?p = Some []"
    using that packageMatch_empty_no_version [OF that]
    by (simp add: DirectiveCompletionProvider_calls_def Let_def getPackageCompletions_calls_def)
  have p1: "FetchVersions [] \<notin> set (PackageCompletionProvider_calls text character)"
    using v
    by (auto simp: PackageCompletionProvider_calls_def Let_def getVersionCompletions_calls_def
        split: option.splits)
  have p2: "PackageCompletionProvider_calls text character = [SearchPackages []]"
    if "packageMatch ?p = Some []"
    using that packageMatch_empty_no_version [OF that]
    by (simp add: PackageCompletionProvider_calls_def Let_def)
  show ?thesis using d1 d2 d3 p1 p2 by simp
qed

text \<open>
  Claim C7, at the failing input. On the line \<open>#:package \<close> with the cursor at its end
  (column 10) the typed package-name prefix is empty.
  \<open>PackageCompletionProvider.provideCompletionItems\<close> calls \<open>searchPackages("")\<close>;
  \<open>DirectiveCompletionProvider\<close> makes no client call there.
\<close>

theorem PackageCompletionProvider_empty_query:
  "packageMatch (substring ''#:package '' 0 10) = Some []
   \<and> PackageCompletionProvider_calls ''#:package '' 10 = [SearchPackages []]
   \<and> DirectiveCompletionProvider_calls ''#:package '' 10 = []"
proof -
  have "packageVersionMatch ''#:package '' = None"
    using packageMatch_package_space by (rule packageMatch_empty_no_version)
  then show ?thesis
    by (simp add: PackageCompletionProvider_calls_def DirectiveCompletionProvider_calls_def Let_def
        line_package_space packageMatch_package_space getPackageCompletions_calls_def)
qed

section \<open>Properties of the hover providers\<close>

lemma fetchPackageHover_Some:
  "fetchPackageHover net packageId r = Some h \<longleftrightarrow>
   (\<exists>item items. net packageId = Ok (item # items) \<and> h = \<lparr>packageData = item, hoverRange = r\<rparr>)"
  by (auto simp: fetchPackageHover_def split: search_outcome.splits list.splits)

lemma hover_line_match: "packageHoverMatch ''#:package Humanizer@2.14.1'' = Some (''Humanizer'', ''2.14.1'')"
  by (simp add: packageHoverMatch_def afterPackage_def isSpace_def code_def dottedName.simps
      isWordChar_def isDigit_def)

lemma hover_word_package: "substring ''#:package Humanizer@2.14.1'' 2 9 = ''package''"
  by (simp add: substring_def)

lemma hover_word_id: "substring ''#:package Humanizer@2.14.1'' 10 19 = ''Humanizer''"
  by (simp add: substring_def)

text \<open>
  Claim C9, as amended. \<open>PackageHoverProvider.provideHover\<close> gives a hover only when the
  line is a package directive, there is a word at the position, and the text of the word
  range contains the first dot-segment of the package id; when the containment fails it
  gives nothing. \<open>DirectiveHoverProvider\<close> has no containment check: on a package
  directive it gives a hover exactly when there is a word at the position and the lookup
  has a first result.
\<close>

theorem package_hover_containment:
  "(PackageHoverProvider_provideHover lineText wordRange net = Some h \<longrightarrow>
      (\<exists>packageId ver start end'.
          packageHoverMatch lineText = Some (packageId, ver) \<and> wordRange = Some (start, end')
        \<and> includes_str (substring lineText start end') (hd (split_dot packageId))))
   \<and> (DirectiveHoverProvider_provideHover lineText wordRange net = Some (Some h) \<longleftrightarrow>
      (\<exists>packageId ver r item items.
          packageHoverMatch lineText = Some (packageId, ver) \<and> wordRange = Some r
        \<and> net packageId = Ok (item # items) \<and> h = \<lparr>packageData = item, hoverRange = r\<rparr>))"
proof (intro conjI impI)
  assume "PackageHoverProvider_provideHover lineText wordRange net = Some h"
  then show "\<exists>packageId ver start end'.
          packageHoverMatch lineText = Some (packageId, ver) \<and> wordRange = Some (start, end')
        \<and> includes_str (substring lineText start end') (hd (split_dot packageId))"
    by (auto simp: PackageHoverProvider_provideHover_def split: option.splits if_splits)
next
  show "DirectiveHoverProvider_provideHover lineText wordRange net = Some (Some h) \<longleftrightarrow>
      (\<exists>packageId ver r item items.
          packageHoverMatch lineText = Some (packageId, ver) \<and> wordRange = Some r
        \<and> net packageId = Ok (item # items) \<and> h = \<lparr>packageData = item, hoverRange = r\<rparr>)"
    by (auto simp: DirectiveHoverProvider_provideHover_def getPackageHover_def
        fetchPackageHover_Some split: option.splits)
qed

theorem package_hover_containment_witness:
  "PackageHoverProvider_provideHover ''#:package Humanizer@2.14.1'' (Some (10, 19)) (\<lambda>q. Ok [humanizer])
     = Some \<lparr>packageData = humanizer, hoverRange = (10, 19)\<rparr>
   \<and> includes_str (substring ''#:package Humanizer@2.14.1'' 10 19) (hd (split_dot ''Humanizer''))
   \<and> PackageHoverProvider_provideHover ''#:package Humanizer@2.14.1'' (Some (2, 9)) (\<lambda>q. Ok [humanizer])
     = None"
proof -
  let ?line = "''#:package Humanizer@2.14.1''"
  have run: "PackageHoverProvider_provideHover ?line (Some (10, 19)) (\<lambda>q. Ok [humanizer])
     = Some \<lparr>packageData = humanizer, hoverRange = (10, 19)\<rparr>"
    by (simp add: PackageHoverProvider_provideHover_def hover_line_match hover_word_id
        fetchPackageHover_def)
  from package_hover_containment
    [of ?line "Some (10, 19)" "\<lambda>q. Ok [humanizer]" "\<lparr>packageData = humanizer, hoverRange = (10, 19)\<rparr>"]
    run
  have "includes_str (substring ?line 10 19) (hd (split_dot ''Humanizer''))"
    by (auto simp: hover_line_match)
  moreover have "PackageHoverProvider_provideHover ?line (Some (2, 9)) (\<lambda>q. Ok [humanizer]) = None"
    by (simp add: PackageHoverProvider_provideHover_def hover_line_match hover_word_package)
  ultimately show ?thesis using run by simp
qed

text \<open>
  Claim C9 as stated fails on \<open>DirectiveHoverProvider\<close>: over the word \<open>package\<close> of
  \<open>#:package Humanizer@2.14.1\<close> (columns 2 to 9) it gives the hover, although
  \<open>package\<close> does not contain \<open>Humanizer\<close>.
\<close>

theorem package_hover_containment_counterexample:
  "DirectiveHoverProvider_provideHover ''#:package Humanizer@2.14.1'' (Some (2, 9)) (\<lambda>q. Ok [humanizer])
     = Some (Some \<lparr>packageData = humanizer, hoverRange = (2, 9)\<rparr>)
   \<and> substring ''#:package Humanizer@2.14.1'' 2 9 = ''package''
   \<and> hd (split_dot ''Humanizer'') = ''Humanizer''
   \<and> \<not> includes_str ''package'' ''Humanizer''"
  by (simp add: DirectiveHoverProvider_provideHover_def hover_line_match getPackageHover_def
      fetchPackageHover_def hover_word_package)

end
